theory Spec2Isabelle
  imports Main "HOL-Library.Word"
begin

section \<open>kubectl-peek: the pagination control loop\<close>

text \<open>
  A shallow embedding of \<^verbatim>\<open>main.go\<close>. The file holds two versions of the program: the
  one whose \<^verbatim>\<open>Run\<close> negotiates a server-side \<^verbatim>\<open>Table\<close> through a REST client, and the
  one whose \<^verbatim>\<open>Run\<close> lists through the dynamic client and prints with the printer of the
  print flags. \<^verbatim>\<open>Validate\<close> and \<^verbatim>\<open>getResourceGVR\<close> are the same text in both.

  Everything the program calls outside its own text (the REST mapper, the API server, the
  printers, standard input) is a field of a \<open>world\<close>: the answer the k-th call of each kind
  receives. The program's calls and writes are recorded, in order, in a trace of events.
\<close>

subsection \<open>Go strings\<close>

text \<open>
  A Go string is a sequence of bytes. \<^verbatim>\<open>strings.ToLower\<close> and \<^verbatim>\<open>strconv.Quote\<close> (the \<^verbatim>\<open>%q\<close>
  verb) are defined here on strings whose bytes are all below \<^verbatim>\<open>0x80\<close>; on any other
  string they consult the Unicode tables, which are taken from the world.
  \<^verbatim>\<open>strings.Split\<close> is taken at a separator of one byte, as the program calls it, and
  \<^verbatim>\<open>Sprintf\<close> expands the verb \<^verbatim>\<open>%s\<close>, the only one in the formats the program writes
  with. \<^verbatim>\<open>Contains\<close> is \<^verbatim>\<open>strings.Contains\<close>; the program does not call it, the properties
  do.
\<close>

definition isASCII :: "string \<Rightarrow> bool" where
  "isASCII s = list_all (\<lambda>c. (of_char c :: nat) < 0x80) s"

definition lowerByte :: "char \<Rightarrow> char" where
  "lowerByte c =
     (if (0x41::nat) \<le> of_char c \<and> (of_char c :: nat) \<le> 0x5A
      then char_of ((of_char c :: nat) + 0x20) else c)"

definition hexDigit :: "nat \<Rightarrow> char" where
  "hexDigit n = ''0123456789abcdef'' ! (n mod 16)"

definition escapeByte :: "char \<Rightarrow> string" where
  "escapeByte c =
     (let n = (of_char c :: nat) in
      if c = CHR 0x22 \<or> c = CHR 0x5C then [CHR 0x5C, c]
      else if 0x20 \<le> n \<and> n < 0x7F then [c]
      else if n = 0x07 then [CHR 0x5C, CHR ''a'']
      else if n = 0x08 then [CHR 0x5C, CHR ''b'']
      else if n = 0x0C then [CHR 0x5C, CHR ''f'']
      else if n = 0x0A then [CHR 0x5C, CHR ''n'']
      else if n = 0x0D then [CHR 0x5C, CHR ''r'']
      else if n = 0x09 then [CHR 0x5C, CHR ''t'']
      else if n = 0x0B then [CHR 0x5C, CHR ''v'']
      else [CHR 0x5C, CHR ''x'', hexDigit (n div 16), hexDigit n])"

fun Split :: "string \<Rightarrow> char \<Rightarrow> string list" where
  "Split [] sep = [[]]"
| "Split (c # cs) sep =
     (if c = sep then [] # Split cs sep
      else (case Split cs sep of [] \<Rightarrow> [[c]] | p # ps \<Rightarrow> (c # p) # ps))"

fun Sprintf :: "string \<Rightarrow> string list \<Rightarrow> string" where
  "Sprintf [] args = []"
| "Sprintf [c] args = [c]"
| "Sprintf (c # d # f) args =
     (if c = CHR ''%'' \<and> d = CHR ''s''
      then (case args of
              [] \<Rightarrow> ''%!s(MISSING)'' @ Sprintf f []
            | a # rest \<Rightarrow> a @ Sprintf f rest)
      else c # Sprintf (d # f) args)"

fun Contains :: "string \<Rightarrow> string \<Rightarrow> bool" where
  "Contains [] substr = (substr = [])"
| "Contains (c # s) substr =
     (take (length substr) (c # s) = substr \<or> Contains s substr)"

subsection \<open>Data\<close>

type_synonym rune = "32 word"

datatype error =
    Errorf string
  | LibraryError string

record GroupVersionResource =
  Group :: string
  Version :: string
  Resource :: string

record ListOptions =
  Limit :: "64 word"
  Continue :: string
  LabelSelector :: string

record Config =
  GroupVersion :: "string \<times> string"
  APIPath :: string
  AcceptContentTypes :: string

type_synonym TableRow = "string list"

record Table =
  tableContinue :: string
  Rows :: "TableRow list"

record UnstructuredList =
  listContinue :: string
  Items :: "string list"

record PeekOptions =
  outputFormat :: string
  resource :: string
  limit :: "64 word"
  continueToken :: string
  interactive :: bool
  selector :: string
  allNamespaces :: bool
  namespace :: string

text \<open>
  The collaborators. \<open>completeConfig\<close> is what \<^verbatim>\<open>Complete\<close> gets from the kubeconfig
  loaders (an error, or the namespace; the clients it builds are lazy and make no call).
  \<open>ResourceFor\<close> is the REST mapper, \<open>RESTClientFor\<close> the construction of the REST client
  from a configuration and \<open>ToPrinter\<close> the printer lookup of the print flags, by output
  format; the last two return the error, if any. Counting from zero, \<open>listResponse k\<close>
  answers the k-th list request, \<open>printResult k\<close> is what the k-th \<^verbatim>\<open>PrintObj\<close> returns and
  \<open>readRune k\<close> what the k-th \<^verbatim>\<open>ReadRune\<close> returns, each on a fresh buffered reader of
  standard input.
\<close>

record 'p world =
  unicodeToLower :: "string \<Rightarrow> string"
  unicodeQuote :: "string \<Rightarrow> string"
  completeConfig :: "error + string"
  ResourceFor :: "GroupVersionResource \<Rightarrow> error + GroupVersionResource"
  RESTClientFor :: "Config \<Rightarrow> error option"
  ToPrinter :: "string \<Rightarrow> error option"
  listResponse :: "nat \<Rightarrow> error + 'p"
  printResult :: "nat \<Rightarrow> error option"
  readRune :: "nat \<Rightarrow> error + rune"

text \<open>
  The trace: the calls that reach the mapper or the server, with their answers, the
  writes to the output stream \<^verbatim>\<open>o.Out\<close> (the printer's, \<^verbatim>\<open>Fprintln\<close> and \<^verbatim>\<open>Fprintf\<close> with their
  arguments), the read of a keystroke with its result, and the \<^verbatim>\<open>fmt.Println()\<close> that
  goes to standard output.
\<close>

datatype 'p event =
    ResourceForCall GroupVersionResource "error + GroupVersionResource"
  | ListCall GroupVersionResource string ListOptions "error + 'p"
  | PrintObjCall 'p "error option"
  | Fprintln_Out string
  | Fprintf_Out string "string list"
  | ReadRuneCall "error + rune"
  | Println_Stdout

text \<open>
  The variables of the loop, with the number of calls made so far and the trace; and what
  a pass through the loop ends with: a \<^verbatim>\<open>return\<close> or the next pass.
\<close>

record 'p state =
  continueTokenVar :: string
  isFirstRequest :: bool
  listed :: nat
  printed :: nat
  keysRead :: nat
  trace :: "'p event list"

datatype flow = Return "error option" | Next

subsection \<open>Library calls\<close>

definition ToLower :: "'p world \<Rightarrow> string \<Rightarrow> string" where
  "ToLower w s = (if isASCII s then map lowerByte s else unicodeToLower w s)"

definition Quote :: "'p world \<Rightarrow> string \<Rightarrow> string" where
  "Quote w s =
     (if isASCII s then [CHR 0x22] @ concat (map escapeByte s) @ [CHR 0x22]
      else unicodeQuote w s)"

text \<open>The bytes an event puts on the output stream (those of \<^verbatim>\<open>PrintObj\<close> are the printer's).\<close>

fun written :: "'p event \<Rightarrow> string" where
  "written (Fprintln_Out s) = s @ ''\<newline>''"
| "written (Fprintf_Out f args) = Sprintf f args"
| "written Println_Stdout = ''\<newline>''"
| "written _ = []"

fun isListCall :: "'p event \<Rightarrow> bool" where
  "isListCall (ListCall g ns lo r) = True"
| "isListCall _ = False"

fun isReadRune :: "'p event \<Rightarrow> bool" where
  "isReadRune (ReadRuneCall r) = True"
| "isReadRune _ = False"

subsection \<open>Validate\<close>

definition Validate :: "PeekOptions \<Rightarrow> error option" where
  "Validate opts =
     (if sint (limit opts) \<le> 0 then
        Some (Errorf ''--limit must be a positive number'')
      else if interactive opts \<and> continueToken opts \<noteq> [] then
        Some (Errorf ''cannot use --interactive and --continue flags together'')
      else if interactive opts \<and> (outputFormat opts \<noteq> [] \<and> outputFormat opts \<noteq> ''wide'') then
        Some (Errorf ''interactive mode is only supported for standard and wide table output'')
      else None)"

subsection \<open>getResourceGVR\<close>

definition gvrToFind :: "'p world \<Rightarrow> PeekOptions \<Rightarrow> GroupVersionResource" where
  "gvrToFind w opts =
     (let resourceArg = ToLower w (resource opts);
          parts = Split resourceArg (CHR ''.'')
      in if length parts = 2
         then \<lparr>Group = parts ! 1, Version = [], Resource = parts ! 0\<rparr>
         else \<lparr>Group = [], Version = [], Resource = resourceArg\<rparr>)"

definition getResourceGVR :: "'p world \<Rightarrow> PeekOptions \<Rightarrow> error + GroupVersionResource" where
  "getResourceGVR w opts =
     (case ResourceFor w (gvrToFind w opts) of
        Inl err \<Rightarrow>
          Inl (Errorf (''the server doesn't have a resource type '' @ Quote w (resource opts)))
      | Inr gvr \<Rightarrow> Inr gvr)"

subsection \<open>Run, with the Table-negotiating REST client\<close>

definition newRestClient :: "'p world \<Rightarrow> string \<times> string \<Rightarrow> error option" where
  "newRestClient w gv =
     RESTClientFor w
       \<lparr>GroupVersion = gv,
        APIPath = (if fst gv = [] then ''/api'' else ''/apis''),
        AcceptContentTypes = ''application/json;as=Table;v=v1;g=meta.k8s.io,application/json''\<rparr>"

text \<open>One pass through the body of the \<^verbatim>\<open>for\<close> loop.\<close>

definition iteration ::
  "PeekOptions \<Rightarrow> Table world \<Rightarrow> string \<Rightarrow> GroupVersionResource \<Rightarrow> Table state
     \<Rightarrow> flow \<times> Table state" where
  "iteration opts w ns gvr s =
     (let listOptions = \<lparr>Limit = limit opts, Continue = continueTokenVar s,
                          LabelSelector = selector opts\<rparr>;
          resp = listResponse w (listed s);
          s1 = s\<lparr>listed := Suc (listed s),
                 trace := trace s @ [ListCall gvr ns listOptions resp]\<rparr>
      in case resp of
           Inl err \<Rightarrow> (Return (Some err), s1)
         | Inr table \<Rightarrow>
            (if isFirstRequest s1 \<and> length (Rows table) = 0 then
               (Return None, s1\<lparr>trace := trace s1 @ [Fprintln_Out ''No resources found.'']\<rparr>)
             else
              (let pr = printResult w (printed s1);
                   s2 = s1\<lparr>printed := Suc (printed s1),
                           trace := trace s1 @ [PrintObjCall table pr]\<rparr>
               in case pr of
                    Some err \<Rightarrow> (Return (Some err), s2)
                  | None \<Rightarrow>
                     (let s3 = s2\<lparr>isFirstRequest := False,
                                  continueTokenVar := tableContinue table\<rparr>
                      in if continueTokenVar s3 = [] then
                           (if interactive opts then
                              (Return None,
                               s3\<lparr>trace := trace s3 @ [Fprintln_Out ''\<newline>--- End of list ---'']\<rparr>)
                            else (Return None, s3))
                         else if interactive opts then
                          (let key = readRune w (keysRead s3);
                               s4 = s3\<lparr>keysRead := Suc (keysRead s3),
                                       trace := trace s3 @
                                         [Fprintf_Out ''\<newline>--- [n] next page, [q] quit: '' [],
                                          ReadRuneCall key]\<rparr>
                           in case key of
                                Inl err \<Rightarrow> (Return (Some err), s4)
                              | Inr char \<Rightarrow>
                                 (let s5 = s4\<lparr>trace := trace s4 @ [Println_Stdout]\<rparr>
                                  in if char \<noteq> 0x6E then (Return None, s5) else (Next, s5)))
                         else
                           (Return None,
                            s3\<lparr>trace := trace s3 @
                              [Fprintf_Out ''\<newline>Continue Token: %s\<newline>''
                                 [continueTokenVar s3]]\<rparr>)))))"

partial_function (option) loop ::
  "PeekOptions \<Rightarrow> Table world \<Rightarrow> string \<Rightarrow> GroupVersionResource \<Rightarrow> Table state
     \<Rightarrow> (error option \<times> Table state) option" where
  "loop opts w ns gvr s =
     (case iteration opts w ns gvr s of
        (Return r, s') \<Rightarrow> Some (r, s')
      | (Next, s') \<Rightarrow> loop opts w ns gvr s')"

declare loop.simps [code]

definition Run :: "PeekOptions \<Rightarrow> Table world \<Rightarrow> (error option \<times> Table event list) option" where
  "Run opts w =
     (let tr0 = [ResourceForCall (gvrToFind w opts) (ResourceFor w (gvrToFind w opts))]
      in case getResourceGVR w opts of
           Inl err \<Rightarrow> Some (Some err, tr0)
         | Inr gvr \<Rightarrow>
            (let ns = (if allNamespaces opts then [] else namespace opts)
             in (case newRestClient w (Group gvr, Version gvr) of
                   Some err \<Rightarrow> Some (Some err, tr0)
                 | None \<Rightarrow>
                     map_option (\<lambda>(r, s). (r, trace s))
                       (loop opts w ns gvr
                          \<lparr>continueTokenVar = continueToken opts, isFirstRequest = True,
                           listed = 0, printed = 0, keysRead = 0, trace = tr0\<rparr>))))"

subsection \<open>The command\<close>

definition Complete :: "'p world \<Rightarrow> PeekOptions \<Rightarrow> error + PeekOptions" where
  "Complete w opts =
     (case completeConfig w of
        Inl err \<Rightarrow> Inl err
      | Inr ns \<Rightarrow> Inr (opts\<lparr>namespace := ns\<rparr>))"

definition RunE ::
  "string list \<Rightarrow> PeekOptions \<Rightarrow> Table world \<Rightarrow> (error option \<times> Table event list) option" where
  "RunE args opts w =
     (if length args = 0 then
        Some (Some (Errorf ''you must specify the type of resource to peek''), [])
      else if length args > 1 then
        Some (Some (Errorf ''only one resource type is allowed''), [])
      else
        case Complete w (opts\<lparr>resource := args ! 0\<rparr>) of
          Inl err \<Rightarrow> Some (Some err, [])
        | Inr opts' \<Rightarrow>
            (case Validate opts' of
               Some err \<Rightarrow> Some (Some err, [])
             | None \<Rightarrow> Run opts' w))"

definition exitCode :: "error option \<Rightarrow> nat" where
  "exitCode r = (case r of None \<Rightarrow> 0 | Some err \<Rightarrow> 1)"

definition main ::
  "string list \<Rightarrow> PeekOptions \<Rightarrow> Table world \<Rightarrow> (nat \<times> Table event list) option" where
  "main args opts w = map_option (\<lambda>(r, tr). (exitCode r, tr)) (RunE args opts w)"

subsection \<open>Run, with the dynamic client\<close>

text \<open>
  The second \<^verbatim>\<open>Run\<close> of the file builds no REST client; in each pass it asks the print flags
  for a printer before it prints.
\<close>

definition iteration_dynamic ::
  "PeekOptions \<Rightarrow> UnstructuredList world \<Rightarrow> string \<Rightarrow> GroupVersionResource
     \<Rightarrow> UnstructuredList state \<Rightarrow> flow \<times> UnstructuredList state" where
  "iteration_dynamic opts w ns gvr s =
     (let listOptions = \<lparr>Limit = limit opts, Continue = continueTokenVar s,
                          LabelSelector = selector opts\<rparr>;
          resp = listResponse w (listed s);
          s1 = s\<lparr>listed := Suc (listed s),
                 trace := trace s @ [ListCall gvr ns listOptions resp]\<rparr>
      in case resp of
           Inl err \<Rightarrow> (Return (Some err), s1)
         | Inr list \<Rightarrow>
            (if isFirstRequest s1 \<and> length (Items list) = 0 then
               (Return None, s1\<lparr>trace := trace s1 @ [Fprintln_Out ''No resources found.'']\<rparr>)
             else
              (case ToPrinter w (outputFormat opts) of
                 Some err \<Rightarrow> (Return (Some err), s1)
               | None \<Rightarrow>
                  (let pr = printResult w (printed s1);
                       s2 = s1\<lparr>printed := Suc (printed s1),
                               trace := trace s1 @ [PrintObjCall list pr]\<rparr>
                   in case pr of
                        Some err \<Rightarrow> (Return (Some err), s2)
                      | None \<Rightarrow>
                         (let s3 = s2\<lparr>isFirstRequest := False,
                                      continueTokenVar := listContinue list\<rparr>
                          in if continueTokenVar s3 = [] then
                               (if interactive opts then
                                  (Return None,
                                   s3\<lparr>trace := trace s3 @
                                     [Fprintln_Out ''\<newline>--- End of list ---'']\<rparr>)
                                else (Return None, s3))
                             else if interactive opts then
                              (let key = readRune w (keysRead s3);
                                   s4 = s3\<lparr>keysRead := Suc (keysRead s3),
                                           trace := trace s3 @
                                             [Fprintf_Out ''\<newline>--- [n] next page, [q] quit: '' [],
                                              ReadRuneCall key]\<rparr>
                               in case key of
                                    Inl err \<Rightarrow> (Return (Some err), s4)
                                  | Inr char \<Rightarrow>
                                     (let s5 = s4\<lparr>trace := trace s4 @ [Println_Stdout]\<rparr>
                                      in if char \<noteq> 0x6E then (Return None, s5)
                                         else (Next, s5)))
                             else
                               (Return None,
                                s3\<lparr>trace := trace s3 @
                                  [Fprintf_Out ''\<newline>Continue Token: %s\<newline>''
                                     [continueTokenVar s3]]\<rparr>))))))"

partial_function (option) loop_dynamic ::
  "PeekOptions \<Rightarrow> UnstructuredList world \<Rightarrow> string \<Rightarrow> GroupVersionResource
     \<Rightarrow> UnstructuredList state \<Rightarrow> (error option \<times> UnstructuredList state) option" where
  "loop_dynamic opts w ns gvr s =
     (case iteration_dynamic opts w ns gvr s of
        (Return r, s') \<Rightarrow> Some (r, s')
      | (Next, s') \<Rightarrow> loop_dynamic opts w ns gvr s')"

declare loop_dynamic.simps [code]

definition Run_dynamic ::
  "PeekOptions \<Rightarrow> UnstructuredList world
     \<Rightarrow> (error option \<times> UnstructuredList event list) option" where
  "Run_dynamic opts w =
     (let tr0 = [ResourceForCall (gvrToFind w opts) (ResourceFor w (gvrToFind w opts))]
      in case getResourceGVR w opts of
           Inl err \<Rightarrow> Some (Some err, tr0)
         | Inr gvr \<Rightarrow>
            (let ns = (if allNamespaces opts then [] else namespace opts)
             in map_option (\<lambda>(r, s). (r, trace s))
                  (loop_dynamic opts w ns gvr
                     \<lparr>continueTokenVar = continueToken opts, isFirstRequest = True,
                      listed = 0, printed = 0, keysRead = 0, trace = tr0\<rparr>)))"

subsection \<open>Vocabulary of the properties\<close>

text \<open>The state in which \<^verbatim>\<open>Run\<close> enters its loop, and the list options of a request.\<close>

definition initialState :: "PeekOptions \<Rightarrow> 'p event list \<Rightarrow> 'p state" where
  "initialState opts tr0 =
     \<lparr>continueTokenVar = continueToken opts, isFirstRequest = True,
      listed = 0, printed = 0, keysRead = 0, trace = tr0\<rparr>"

definition request :: "PeekOptions \<Rightarrow> string \<Rightarrow> ListOptions" where
  "request opts t = \<lparr>Limit = limit opts, Continue = t, LabelSelector = selector opts\<rparr>"

subsection \<open>Concrete inputs\<close>

text \<open>
  The options as the flags default them, and a small cluster that knows the resource
  \<^verbatim>\<open>pods\<close>, whose list responses and keystrokes are given as scripts.
\<close>

definition defaultOptions :: PeekOptions where
  "defaultOptions =
     \<lparr>outputFormat = [], resource = [], limit = 10, continueToken = [], interactive = False,
      selector = [], allNamespaces = False, namespace = []\<rparr>"

definition podsGVR :: GroupVersionResource where
  "podsGVR = \<lparr>Group = [], Version = ''v1'', Resource = ''pods''\<rparr>"

definition script :: "'a list \<Rightarrow> 'a \<Rightarrow> nat \<Rightarrow> 'a" where
  "script xs d k = (if k < length xs then xs ! k else d)"

definition EOF :: error where
  "EOF = LibraryError ''EOF''"

definition cluster :: "(nat \<Rightarrow> error + 'p) \<Rightarrow> (nat \<Rightarrow> error + rune) \<Rightarrow> 'p world" where
  "cluster pages keys =
     \<lparr>unicodeToLower = (\<lambda>s. s), unicodeQuote = (\<lambda>s. s), completeConfig = Inr ''default'',
      ResourceFor = (\<lambda>g. if Resource g = ''pods'' then Inr podsGVR
                          else Inl (LibraryError ''no matches for kind'')),
      RESTClientFor = (\<lambda>c. None), ToPrinter = (\<lambda>f. None),
      listResponse = pages, printResult = (\<lambda>k. None), readRune = keys\<rparr>"

definition tablePage :: "nat \<Rightarrow> string \<Rightarrow> Table" where
  "tablePage n t = \<lparr>tableContinue = t, Rows = replicate n [''pod'']\<rparr>"

text \<open>
  A page is rendered when it is not the empty first page (which is answered with the
  message instead) and the printer returns no error. \<open>prompt\<close> is the interactive hint.
\<close>

definition rendered :: "'p world \<Rightarrow> 'p state \<Rightarrow> nat \<Rightarrow> bool" where
  "rendered w s n \<longleftrightarrow> \<not> (isFirstRequest s \<and> n = 0) \<and> printResult w (printed s) = None"

definition prompt :: "'p event" where
  "prompt = Fprintf_Out ''\<newline>--- [n] next page, [q] quit: '' []"

text \<open>
  The strings that \<^verbatim>\<open>%q\<close> leaves as they are between the quotes: printable ASCII without
  the double quote and the backslash.
\<close>

definition plainASCII :: "string \<Rightarrow> bool" where
  "plainASCII s =
     list_all (\<lambda>c. (0x20::nat) \<le> of_char c \<and> (of_char c :: nat) < 0x7F \<and>
                    c \<noteq> CHR 0x22 \<and> c \<noteq> CHR 0x5C) s"

text \<open>
  A collection of \<open>P\<close> pages: the server answers the first \<open>P - 1\<close> requests with a page
  that carries a token and the next one with a page that carries none. The empty
  collection (\<open>P = 0\<close>) is served as one such last page. \<open>listCalls\<close> counts the list
  requests of a trace, one per pass through the loop.
\<close>

definition carriesToken :: "error + Table \<Rightarrow> bool" where
  "carriesToken resp = (case resp of Inl err \<Rightarrow> False | Inr table \<Rightarrow> tableContinue table \<noteq> [])"

definition isLastPage :: "error + Table \<Rightarrow> bool" where
  "isLastPage resp = (case resp of Inl err \<Rightarrow> False | Inr table \<Rightarrow> tableContinue table = [])"

definition servesPages :: "Table world \<Rightarrow> nat \<Rightarrow> bool" where
  "servesPages w P \<longleftrightarrow>
     list_all (\<lambda>i. carriesToken (listResponse w i)) [0..<P - 1] \<and>
     isLastPage (listResponse w (P - 1))"

definition listCalls :: "'p event list \<Rightarrow> nat" where
  "listCalls tr = length (filter isListCall tr)"

text \<open>
  The tokens of a trace are chained from \<open>t\<close> when its first list request carries \<open>t\<close> and
  every later one carries the token of the response before it; after a failed request
  there is no other. Renaming the tokens by \<open>f\<close> replaces each token the server returns,
  in the world and, where it shows, in the trace.
\<close>

fun tokensChained :: "string \<Rightarrow> Table event list \<Rightarrow> bool" where
  "tokensChained t [] = True"
| "tokensChained t (ListCall g ns lo resp # es) =
     (Continue lo = t \<and>
      (case resp of
         Inl err \<Rightarrow> listCalls es = 0
       | Inr table \<Rightarrow> tokensChained (tableContinue table) es))"
| "tokensChained t (e # es) = tokensChained t es"

definition renameTable :: "(string \<Rightarrow> string) \<Rightarrow> Table \<Rightarrow> Table" where
  "renameTable f table = table\<lparr>tableContinue := f (tableContinue table)\<rparr>"

fun renameEvent :: "(string \<Rightarrow> string) \<Rightarrow> Table event \<Rightarrow> Table event" where
  "renameEvent f (ListCall g ns lo resp) =
     ListCall g ns (lo\<lparr>Continue := f (Continue lo)\<rparr>) (map_sum (\<lambda>e. e) (renameTable f) resp)"
| "renameEvent f (PrintObjCall table r) = PrintObjCall (renameTable f table) r"
| "renameEvent f (Fprintf_Out fmt args) = Fprintf_Out fmt (map f args)"
| "renameEvent f e = e"

definition renameWorld :: "(string \<Rightarrow> string) \<Rightarrow> Table world \<Rightarrow> Table world" where
  "renameWorld f w = w\<lparr>listResponse := \<lambda>k. map_sum (\<lambda>e. e) (renameTable f) (listResponse w k)\<rparr>"

definition renameState :: "(string \<Rightarrow> string) \<Rightarrow> Table state \<Rightarrow> Table state" where
  "renameState f s =
     s\<lparr>continueTokenVar := f (continueTokenVar s), trace := map (renameEvent f) (trace s)\<rparr>"

text \<open>
  The first \<open>k\<close> passes of the loop: the state they reach, and the return if one of them
  returned. A run that never returns is the sequence of these states.
\<close>

fun passes ::
  "nat \<Rightarrow> PeekOptions \<Rightarrow> Table world \<Rightarrow> string \<Rightarrow> GroupVersionResource \<Rightarrow> Table state
     \<Rightarrow> flow \<times> Table state" where
  "passes 0 opts w ns gvr s = (Next, s)"
| "passes (Suc k) opts w ns gvr s =
     (case iteration opts w ns gvr s of
        (Return r, s') \<Rightarrow> (Return r, s')
      | (Next, s') \<Rightarrow> passes k opts w ns gvr s')"

text \<open>
  Comparing the two versions of \<^verbatim>\<open>Run\<close>. What a controller sees of a page is its number
  of items and its token. Two worlds have the same collaborators when the mapper, the
  string tables, the printer results and the keystrokes are the same and the k-th list
  responses are the same error or pages of the same size and token.
\<close>

definition pageOfTable :: "Table \<Rightarrow> nat \<times> string" where
  "pageOfTable table = (length (Rows table), tableContinue table)"

definition pageOfList :: "UnstructuredList \<Rightarrow> nat \<times> string" where
  "pageOfList list = (length (Items list), listContinue list)"

definition abstractState :: "('p \<Rightarrow> nat \<times> string) \<Rightarrow> 'p state \<Rightarrow> (nat \<times> string) state" where
  "abstractState page s =
     \<lparr>continueTokenVar = continueTokenVar s, isFirstRequest = isFirstRequest s,
      listed = listed s, printed = printed s, keysRead = keysRead s,
      trace = map (map_event page) (trace s)\<rparr>"

definition sameCollaborators :: "Table world \<Rightarrow> UnstructuredList world \<Rightarrow> bool" where
  "sameCollaborators wa wb \<longleftrightarrow>
     unicodeToLower wa = unicodeToLower wb \<and> unicodeQuote wa = unicodeQuote wb \<and>
     ResourceFor wa = ResourceFor wb \<and> printResult wa = printResult wb \<and>
     readRune wa = readRune wb \<and>
     (\<forall>k. map_sum (\<lambda>e. e) pageOfTable (listResponse wa k) =
          map_sum (\<lambda>e. e) pageOfList (listResponse wb k))"

definition listPage :: "nat \<Rightarrow> string \<Rightarrow> UnstructuredList" where
  "listPage n t = \<lparr>listContinue = t, Items = replicate n ''pod''\<rparr>"

section \<open>Properties\<close>

subsection \<open>Reaching the loop\<close>

lemma Validate_ignores:
  "Validate (opts\<lparr>resource := r\<rparr>) = Validate opts"
  "Validate (opts\<lparr>namespace := n\<rparr>) = Validate opts"
  by (simp_all add: Validate_def)

lemma Run_reaches_loop:
  assumes "ResourceFor w (gvrToFind w opts) = Inr gvr"
    and "newRestClient w (Group gvr, Version gvr) = None"
  shows "Run opts w =
           map_option (\<lambda>(r, s). (r, trace s))
             (loop opts w (if allNamespaces opts then [] else namespace opts) gvr
                (initialState opts [ResourceForCall (gvrToFind w opts) (Inr gvr)]))"
  using assms by (simp add: Run_def getResourceGVR_def initialState_def)

lemma main_reaches_Run:
  assumes "completeConfig w = Inr nsp" and "Validate opts = None"
  shows "main [r] opts w =
           map_option (\<lambda>(e, tr). (exitCode e, tr))
             (Run (opts\<lparr>resource := r, namespace := nsp\<rparr>) w)"
  using assms by (simp add: main_def RunE_def Complete_def Validate_ignores)

subsection \<open>Validation\<close>

text \<open>
  C6. An invocation with a non-positive limit, or with both the interactive flag and an
  initial continue token, or with interactive mode and an output format other than the
  default and \<^verbatim>\<open>wide\<close>, is rejected by \<^verbatim>\<open>Validate\<close> with an error; the command returns an
  error with an empty trace (no call to the mapper or the server, nothing written) and
  the process exits with status 1. When exactly one argument is given and \<^verbatim>\<open>Complete\<close>
  succeeds, the error returned is the one of \<^verbatim>\<open>Validate\<close>.
\<close>

theorem Validate_rejects_before_any_call:
  assumes "sint (limit opts) \<le> 0 \<or> (interactive opts \<and> continueToken opts \<noteq> []) \<or>
           (interactive opts \<and> outputFormat opts \<noteq> [] \<and> outputFormat opts \<noteq> ''wide'')"
  shows "(\<exists>msg. Validate opts = Some (Errorf msg)) \<and>
         (\<exists>err. RunE args opts w = Some (Some err, [])) \<and>
         main args opts w = Some (1, []) \<and>
         (\<forall>r nsp. args = [r] \<and> completeConfig w = Inr nsp \<longrightarrow>
            RunE args opts w = Some (Validate opts, []))"
proof -
  have v: "\<exists>msg. Validate opts = Some (Errorf msg)"
    using assms by (auto simp: Validate_def)
  then obtain msg where m: "Validate opts = Some (Errorf msg)" ..
  have r: "\<exists>err. RunE args opts w = Some (Some err, [])"
    using m by (cases args) (auto simp: RunE_def Complete_def Validate_ignores split: sum.splits)
  then have "main args opts w = Some (1, [])"
    by (auto simp: main_def exitCode_def)
  moreover have "\<forall>r nsp. args = [r] \<and> completeConfig w = Inr nsp \<longrightarrow>
            RunE args opts w = Some (Validate opts, [])"
    using m by (auto simp: RunE_def Complete_def Validate_ignores)
  ultimately show ?thesis using v r by blast
qed

theorem Validate_rejects_witness:
  "sint (limit (defaultOptions\<lparr>limit := 0\<rparr>)) \<le> 0 \<and>
   Validate (defaultOptions\<lparr>limit := 0\<rparr>) =
     Some (Errorf ''--limit must be a positive number'') \<and>
   main [''pods''] (defaultOptions\<lparr>limit := 0\<rparr>)
     (cluster (\<lambda>k. Inr (tablePage 1 [])) (\<lambda>k. Inl EOF)) = Some (1, [])"
  using Validate_rejects_before_any_call
    [of "defaultOptions\<lparr>limit := 0\<rparr>" "[''pods'']"
        "cluster (\<lambda>k. Inr (tablePage 1 [])) (\<lambda>k. Inl EOF)"]
  by (simp add: defaultOptions_def Validate_def)

subsection \<open>One pass through the loop, branch by branch\<close>

lemma loop_Return:
  "iteration opts w ns gvr s = (Return r, s') \<Longrightarrow> loop opts w ns gvr s = Some (r, s')"
  by (subst loop.simps) simp

lemma loop_Next:
  "iteration opts w ns gvr s = (Next, s') \<Longrightarrow> loop opts w ns gvr s = loop opts w ns gvr s'"
  by (subst loop.simps) simp

lemma loop_dynamic_Return:
  "iteration_dynamic opts w ns gvr s = (Return r, s') \<Longrightarrow>
     loop_dynamic opts w ns gvr s = Some (r, s')"
  by (subst loop_dynamic.simps) simp

lemma loop_dynamic_Next:
  "iteration_dynamic opts w ns gvr s = (Next, s') \<Longrightarrow>
     loop_dynamic opts w ns gvr s = loop_dynamic opts w ns gvr s'"
  by (subst loop_dynamic.simps) simp

lemma loop_induct [consumes 1, case_names Return Next]:
  assumes "loop opts w ns gvr s = Some y"
    and "\<And>s r s'. iteration opts w ns gvr s = (Return r, s') \<Longrightarrow> P s (r, s')"
    and "\<And>s s' y. iteration opts w ns gvr s = (Next, s') \<Longrightarrow>
           loop opts w ns gvr s' = Some y \<Longrightarrow> P s' y \<Longrightarrow> P s y"
  shows "P s y"
proof -
  have "loop opts w ns gvr s = Some y \<and> P s y"
    using assms
  proof (induction opts w ns gvr s y rule: loop.raw_induct [rotated 1, consumes 1])
    case (1 loop' opts w ns gvr s y)
    obtain f s1 where it: "iteration opts w ns gvr s = (f, s1)"
      by (cases "iteration opts w ns gvr s")
    show ?case
    proof (cases f)
      case (Return r)
      with it "1.hyps" have "y = (r, s1)" by simp
      with it Return "1.prems"(1) show ?thesis by (simp add: loop_Return)
    next
      case Next
      with it "1.hyps" have "loop' opts w ns gvr s1 = Some y" by simp
      from "1.IH" [OF this "1.prems"] have ih: "loop opts w ns gvr s1 = Some y \<and> P s1 y" .
      with it Next "1.prems"(2) [of s s1 y] show ?thesis by (simp add: loop_Next)
    qed
  qed
  then show ?thesis ..
qed

lemma loop_dynamic_induct [consumes 1, case_names Return Next]:
  assumes "loop_dynamic opts w ns gvr s = Some y"
    and "\<And>s r s'. iteration_dynamic opts w ns gvr s = (Return r, s') \<Longrightarrow> P s (r, s')"
    and "\<And>s s' y. iteration_dynamic opts w ns gvr s = (Next, s') \<Longrightarrow>
           loop_dynamic opts w ns gvr s' = Some y \<Longrightarrow> P s' y \<Longrightarrow> P s y"
  shows "P s y"
proof -
  have "loop_dynamic opts w ns gvr s = Some y \<and> P s y"
    using assms
  proof (induction opts w ns gvr s y rule: loop_dynamic.raw_induct [rotated 1, consumes 1])
    case (1 loop' opts w ns gvr s y)
    obtain f s1 where it: "iteration_dynamic opts w ns gvr s = (f, s1)"
      by (cases "iteration_dynamic opts w ns gvr s")
    show ?case
    proof (cases f)
      case (Return r)
      with it "1.hyps" have "y = (r, s1)" by simp
      with it Return "1.prems"(1) show ?thesis by (simp add: loop_dynamic_Return)
    next
      case Next
      with it "1.hyps" have "loop' opts w ns gvr s1 = Some y" by simp
      from "1.IH" [OF this "1.prems"]
      have ih: "loop_dynamic opts w ns gvr s1 = Some y \<and> P s1 y" .
      with it Next "1.prems"(2) [of s s1 y] show ?thesis by (simp add: loop_dynamic_Next)
    qed
  qed
  then show ?thesis ..
qed

lemma iteration_list_error:
  assumes "listResponse w (listed s) = Inl err"
  shows "iteration opts w ns gvr s =
    (Return (Some err),
     s\<lparr>listed := Suc (listed s),
       trace := trace s @ [ListCall gvr ns (request opts (continueTokenVar s)) (Inl err)]\<rparr>)"
  using assms by (simp add: iteration_def Let_def request_def)

lemma iteration_no_resources:
  assumes "listResponse w (listed s) = Inr table" and "isFirstRequest s" and "Rows table = []"
  shows "iteration opts w ns gvr s =
    (Return None,
     s\<lparr>listed := Suc (listed s),
       trace := trace s @ [ListCall gvr ns (request opts (continueTokenVar s)) (Inr table),
                           Fprintln_Out ''No resources found.'']\<rparr>)"
  using assms by (simp add: iteration_def Let_def request_def)

lemma iteration_print_error:
  assumes "listResponse w (listed s) = Inr table" and "\<not> (isFirstRequest s \<and> Rows table = [])"
    and "printResult w (printed s) = Some err"
  shows "iteration opts w ns gvr s =
    (Return (Some err),
     s\<lparr>listed := Suc (listed s), printed := Suc (printed s),
       trace := trace s @ [ListCall gvr ns (request opts (continueTokenVar s)) (Inr table),
                           PrintObjCall table (Some err)]\<rparr>)"
  using assms by (simp add: iteration_def Let_def request_def)

lemma iteration_end_of_list:
  assumes "listResponse w (listed s) = Inr table" and "rendered w s (length (Rows table))"
    and "tableContinue table = []"
  shows "iteration opts w ns gvr s =
    (Return None,
     s\<lparr>continueTokenVar := [], isFirstRequest := False,
       listed := Suc (listed s), printed := Suc (printed s),
       trace := trace s @ [ListCall gvr ns (request opts (continueTokenVar s)) (Inr table),
                           PrintObjCall table None] @
                (if interactive opts then [Fprintln_Out ''\<newline>--- End of list ---''] else [])\<rparr>)"
  using assms by (auto simp: iteration_def Let_def request_def rendered_def)

lemma iteration_token_single_pass:
  assumes "listResponse w (listed s) = Inr table" and "rendered w s (length (Rows table))"
    and "tableContinue table \<noteq> []" and "\<not> interactive opts"
  shows "iteration opts w ns gvr s =
    (Return None,
     s\<lparr>continueTokenVar := tableContinue table, isFirstRequest := False,
       listed := Suc (listed s), printed := Suc (printed s),
       trace := trace s @ [ListCall gvr ns (request opts (continueTokenVar s)) (Inr table),
                           PrintObjCall table None,
                           Fprintf_Out ''\<newline>Continue Token: %s\<newline>'' [tableContinue table]]\<rparr>)"
  using assms by (auto simp: iteration_def Let_def request_def rendered_def)

lemma iteration_read_error:
  assumes "listResponse w (listed s) = Inr table" and "rendered w s (length (Rows table))"
    and "tableContinue table \<noteq> []" and "interactive opts"
    and "readRune w (keysRead s) = Inl err"
  shows "iteration opts w ns gvr s =
    (Return (Some err),
     s\<lparr>continueTokenVar := tableContinue table, isFirstRequest := False,
       listed := Suc (listed s), printed := Suc (printed s), keysRead := Suc (keysRead s),
       trace := trace s @ [ListCall gvr ns (request opts (continueTokenVar s)) (Inr table),
                           PrintObjCall table None, prompt, ReadRuneCall (Inl err)]\<rparr>)"
  using assms by (auto simp: iteration_def Let_def request_def rendered_def prompt_def)

lemma iteration_key:
  assumes "listResponse w (listed s) = Inr table" and "rendered w s (length (Rows table))"
    and "tableContinue table \<noteq> []" and "interactive opts"
    and "readRune w (keysRead s) = Inr char"
  shows "iteration opts w ns gvr s =
    ((if char \<noteq> 0x6E then Return None else Next),
     s\<lparr>continueTokenVar := tableContinue table, isFirstRequest := False,
       listed := Suc (listed s), printed := Suc (printed s), keysRead := Suc (keysRead s),
       trace := trace s @ [ListCall gvr ns (request opts (continueTokenVar s)) (Inr table),
                           PrintObjCall table None, prompt, ReadRuneCall (Inr char),
                           Println_Stdout]\<rparr>)"
  using assms by (auto simp: iteration_def Let_def request_def rendered_def prompt_def)

subsection \<open>The empty first page\<close>

lemma gvrToFind_namespace: "gvrToFind w (opts\<lparr>namespace := n\<rparr>) = gvrToFind w opts"
  by (simp add: gvrToFind_def)

lemma gvrToFind_pods:
  "resource opts = ''pods'' \<Longrightarrow>
     gvrToFind (cluster pages keys) opts = \<lparr>Group = [], Version = [], Resource = ''pods''\<rparr>"
  by (simp add: gvrToFind_def ToLower_def isASCII_def lowerByte_def cluster_def)

text \<open>
  C5. When the first fetched page has zero items, the command writes the message
  \<^verbatim>\<open>No resources found.\<close> and nothing else, calls no printer, prints no continue token
  (whether or not the response carried one) and exits with status 0.
\<close>

theorem no_resources_found:
  assumes "completeConfig w = Inr nsp" and "Validate opts = None"
    and "ResourceFor w (gvrToFind w (opts\<lparr>resource := r\<rparr>)) = Inr gvr"
    and "newRestClient w (Group gvr, Version gvr) = None"
    and "listResponse w 0 = Inr table" and "Rows table = []"
  shows "main [r] opts w =
           Some (0, [ResourceForCall (gvrToFind w (opts\<lparr>resource := r\<rparr>)) (Inr gvr),
                     ListCall gvr (if allNamespaces opts then [] else nsp)
                       (request opts (continueToken opts)) (Inr table),
                     Fprintln_Out ''No resources found.'']) \<and>
         written (Fprintln_Out ''No resources found.'' :: Table event) =
           ''No resources found.\<newline>''"
proof -
  let ?opts = "opts\<lparr>resource := r, namespace := nsp\<rparr>"
  let ?ns = "if allNamespaces opts then [] else nsp"
  let ?s = "initialState ?opts [ResourceForCall (gvrToFind w ?opts) (Inr gvr)] :: Table state"
  have "iteration ?opts w ?ns gvr ?s =
          (Return None,
           ?s\<lparr>listed := Suc (listed ?s),
               trace := trace ?s @ [ListCall gvr ?ns (request ?opts (continueTokenVar ?s)) (Inr table),
                                    Fprintln_Out ''No resources found.'']\<rparr>)"
    using assms(5,6) by (intro iteration_no_resources) (simp_all add: initialState_def)
  then have "loop ?opts w ?ns gvr ?s =
          Some (None,
           ?s\<lparr>listed := Suc (listed ?s),
               trace := trace ?s @ [ListCall gvr ?ns (request ?opts (continueTokenVar ?s)) (Inr table),
                                    Fprintln_Out ''No resources found.'']\<rparr>)"
    by (rule loop_Return)
  moreover have "Run ?opts w = map_option (\<lambda>(r, s). (r, trace s)) (loop ?opts w ?ns gvr ?s)"
    using Run_reaches_loop [of w ?opts gvr] assms(3,4) by (simp add: gvrToFind_namespace)
  ultimately have "Run ?opts w =
      Some (None, [ResourceForCall (gvrToFind w (opts\<lparr>resource := r\<rparr>)) (Inr gvr),
                   ListCall gvr ?ns (request opts (continueToken opts)) (Inr table),
                   Fprintln_Out ''No resources found.''])"
    by (simp add: initialState_def request_def gvrToFind_namespace)
  then show ?thesis
    using main_reaches_Run [OF assms(1,2), of r] by (simp add: exitCode_def)
qed

theorem no_resources_found_witness:
  "main [''pods''] defaultOptions (cluster (\<lambda>k. Inr (tablePage 0 ''t1'')) (\<lambda>k. Inl EOF)) =
     Some (0, [ResourceForCall \<lparr>Group = [], Version = [], Resource = ''pods''\<rparr> (Inr podsGVR),
               ListCall podsGVR ''default'' \<lparr>Limit = 10, Continue = [], LabelSelector = []\<rparr>
                 (Inr \<lparr>tableContinue = ''t1'', Rows = []\<rparr>),
               Fprintln_Out ''No resources found.''])"
proof -
  let ?w = "cluster (\<lambda>k. Inr (tablePage 0 ''t1'')) (\<lambda>k. Inl EOF) :: Table world"
  have 1: "completeConfig ?w = Inr ''default''" by (simp add: cluster_def)
  have 2: "Validate defaultOptions = None" by (simp add: Validate_def defaultOptions_def)
  have 3: "ResourceFor ?w (gvrToFind ?w (defaultOptions\<lparr>resource := ''pods''\<rparr>)) = Inr podsGVR"
    by (simp add: gvrToFind_pods) (simp add: cluster_def)
  have 4: "newRestClient ?w (Group podsGVR, Version podsGVR) = None"
    by (simp add: newRestClient_def cluster_def)
  have 5: "listResponse ?w 0 = Inr (tablePage 0 ''t1'')" by (simp add: cluster_def)
  have 6: "Rows (tablePage 0 ''t1'') = []" by (simp add: tablePage_def)
  show ?thesis
    using no_resources_found [OF 1 2 3 4 5 6]
    by (simp add: gvrToFind_pods request_def defaultOptions_def tablePage_def)
qed

subsection \<open>A response without a continue token\<close>

text \<open>
  In interactive mode an empty first page without a token is answered with
  \<^verbatim>\<open>No resources found.\<close>; the end-of-list marker is not printed.
\<close>

theorem exhausted_collection_counterexample:
  "interactive (defaultOptions\<lparr>interactive := True\<rparr>) \<and>
   main [''pods''] (defaultOptions\<lparr>interactive := True\<rparr>)
     (cluster (\<lambda>k. Inr \<lparr>tableContinue = [], Rows = []\<rparr>) (\<lambda>k. Inl EOF)) =
     Some (0, [ResourceForCall \<lparr>Group = [], Version = [], Resource = ''pods''\<rparr> (Inr podsGVR),
               ListCall podsGVR ''default'' \<lparr>Limit = 10, Continue = [], LabelSelector = []\<rparr>
                 (Inr \<lparr>tableContinue = [], Rows = []\<rparr>),
               Fprintln_Out ''No resources found.''])"
  by code_simp

text \<open>
  C4, amended. An iteration whose response carries no continue token always returns,
  without reading a keystroke. When the page was rendered (it is not the empty first
  page, and the printer returned no error) the return is a success and what follows the
  page is the end-of-list marker in interactive mode and nothing otherwise. On the empty
  first page the return is a success too, and the only write is \<^verbatim>\<open>No resources found.\<close>,
  in both modes.
\<close>

theorem exhausted_collection_terminates:
  assumes "listResponse w (listed s) = Inr table" and "tableContinue table = []"
  shows "\<exists>r s' new.
           iteration opts w ns gvr s = (Return r, s') \<and>
           loop opts w ns gvr s = Some (r, s') \<and>
           trace s' = trace s @ new \<and> keysRead s' = keysRead s \<and> filter isReadRune new = [] \<and>
           (rendered w s (length (Rows table)) \<longrightarrow>
              r = None \<and>
              new = [ListCall gvr ns (request opts (continueTokenVar s)) (Inr table),
                     PrintObjCall table None] @
                    (if interactive opts then [Fprintln_Out ''\<newline>--- End of list ---''] else [])) \<and>
           (isFirstRequest s \<and> Rows table = [] \<longrightarrow>
              r = None \<and>
              new = [ListCall gvr ns (request opts (continueTokenVar s)) (Inr table),
                     Fprintln_Out ''No resources found.''])"
proof (cases "isFirstRequest s \<and> Rows table = []")
  case True
  then have nr: "\<not> rendered w s (length (Rows table))" by (simp add: rendered_def)
  from True assms(1) have
    "iteration opts w ns gvr s =
       (Return None,
        s\<lparr>listed := Suc (listed s),
          trace := trace s @ [ListCall gvr ns (request opts (continueTokenVar s)) (Inr table),
                              Fprintln_Out ''No resources found.'']\<rparr>)"
    by (intro iteration_no_resources) simp_all
  with nr show ?thesis by (auto dest: loop_Return)
next
  case False
  show ?thesis
  proof (cases "printResult w (printed s)")
    case None
    with False have rd: "rendered w s (length (Rows table))" by (simp add: rendered_def)
    from iteration_end_of_list [OF assms(1) rd assms(2), of opts ns gvr] False rd
    show ?thesis by (auto dest: loop_Return)
  next
    case (Some err)
    then have nr: "\<not> rendered w s (length (Rows table))" by (simp add: rendered_def)
    from iteration_print_error [OF assms(1) False Some, of opts ns gvr] False nr
    show ?thesis by (auto dest: loop_Return)
  qed
qed

theorem exhausted_collection_witness:
  "loop (defaultOptions\<lparr>interactive := True\<rparr>)
     (cluster (\<lambda>k. Inr (tablePage 2 [])) (\<lambda>k. Inl EOF)) ''default'' podsGVR
     (initialState defaultOptions []) =
   Some (None,
     \<lparr>continueTokenVar = [], isFirstRequest = False, listed = 1, printed = 1, keysRead = 0,
      trace = [ListCall podsGVR ''default'' \<lparr>Limit = 10, Continue = [], LabelSelector = []\<rparr>
                 (Inr (tablePage 2 [])),
               PrintObjCall (tablePage 2 []) None,
               Fprintln_Out ''\<newline>--- End of list ---'']\<rparr>)"
proof -
  let ?w = "cluster (\<lambda>k. Inr (tablePage 2 [])) (\<lambda>k. Inl EOF) :: Table world"
  let ?s = "initialState defaultOptions [] :: Table state"
  have 1: "listResponse ?w (listed ?s) = Inr (tablePage 2 [])" by (simp add: cluster_def)
  have 2: "tableContinue (tablePage 2 []) = []" by (simp add: tablePage_def)
  have 3: "rendered ?w ?s (length (Rows (tablePage 2 [])))"
    by (simp add: rendered_def tablePage_def cluster_def)
  show ?thesis
    using exhausted_collection_terminates
      [OF 1 2, of "defaultOptions\<lparr>interactive := True\<rparr>" "''default''" podsGVR] 3
    by (auto simp: initialState_def defaultOptions_def request_def iteration_def Let_def cluster_def tablePage_def)
qed

subsection \<open>A continue token without the interactive flag\<close>

lemma written_token_line:
  "written (Fprintf_Out ''\<newline>Continue Token: %s\<newline>'' [t] :: 'p event) =
     ''\<newline>Continue Token: '' @ t @ ''\<newline>''"
  by simp

text \<open>
  Without the interactive flag, an empty first page that carries a token is answered with
  \<^verbatim>\<open>No resources found.\<close>; no \<^verbatim>\<open>Continue Token:\<close> line is printed.
\<close>

theorem single_pass_counterexample:
  "\<not> interactive defaultOptions \<and>
   main [''pods''] defaultOptions
     (cluster (\<lambda>k. Inr \<lparr>tableContinue = ''abc'', Rows = []\<rparr>) (\<lambda>k. Inl EOF)) =
     Some (0, [ResourceForCall \<lparr>Group = [], Version = [], Resource = ''pods''\<rparr> (Inr podsGVR),
               ListCall podsGVR ''default'' \<lparr>Limit = 10, Continue = [], LabelSelector = []\<rparr>
                 (Inr \<lparr>tableContinue = ''abc'', Rows = []\<rparr>),
               Fprintln_Out ''No resources found.''])"
  by code_simp

text \<open>
  C2, amended. Without the interactive flag, every pass through the loop returns: the run
  makes exactly one list request, shows no prompt and reads no keystroke. When the page
  carries a non-empty token and was rendered (it is not the empty first page, and the
  printer returned no error), the run succeeds and the one write after the page is an
  empty line followed by the line \<^verbatim>\<open>Continue Token: \<close> and the token.
\<close>

theorem single_pass_token_handoff:
  assumes "\<not> interactive opts"
  shows "\<exists>r s' new.
           iteration opts w ns gvr s = (Return r, s') \<and>
           loop opts w ns gvr s = Some (r, s') \<and>
           trace s' = trace s @ new \<and> length (filter isListCall new) = 1 \<and>
           prompt \<notin> set new \<and> filter isReadRune new = [] \<and>
           (\<forall>table. listResponse w (listed s) = Inr table \<and> tableContinue table \<noteq> [] \<and>
                    rendered w s (length (Rows table)) \<longrightarrow>
              r = None \<and>
              new = [ListCall gvr ns (request opts (continueTokenVar s)) (Inr table),
                     PrintObjCall table None,
                     Fprintf_Out ''\<newline>Continue Token: %s\<newline>'' [tableContinue table]] \<and>
              written (Fprintf_Out ''\<newline>Continue Token: %s\<newline>'' [tableContinue table] :: Table event) =
                ''\<newline>Continue Token: '' @ tableContinue table @ ''\<newline>'')"
proof (cases "listResponse w (listed s)")
  case (Inl err)
  from iteration_list_error [OF Inl, of opts ns gvr] Inl
  show ?thesis by (auto dest: loop_Return simp: prompt_def)
next
  case (Inr table)
  show ?thesis
  proof (cases "rendered w s (length (Rows table))")
    case True
    show ?thesis
    proof (cases "tableContinue table = []")
      case e: True
      from iteration_end_of_list [OF Inr True e, of opts ns gvr] assms Inr e
      show ?thesis by (auto dest: loop_Return simp: prompt_def)
    next
      case ne: False
      from iteration_token_single_pass [OF Inr True ne assms, of ns gvr] Inr
      show ?thesis by (auto dest: loop_Return simp: prompt_def written_token_line simp del: written.simps)
    qed
  next
    case False
    show ?thesis
    proof (cases "isFirstRequest s \<and> Rows table = []")
      case t: True
      then have "isFirstRequest s" "Rows table = []" by simp_all
      from iteration_no_resources [OF Inr this, of opts ns gvr] Inr False
      show ?thesis by (auto dest: loop_Return simp: prompt_def)
    next
      case f: False
      with False obtain err where "printResult w (printed s) = Some err"
        by (auto simp: rendered_def)
      from iteration_print_error [OF Inr f this, of opts ns gvr] Inr False
      show ?thesis by (auto dest: loop_Return simp: prompt_def)
    qed
  qed
qed

theorem single_pass_witness:
  "loop defaultOptions (cluster (\<lambda>k. Inr (tablePage 3 ''abc'')) (\<lambda>k. Inl EOF)) ''default'' podsGVR
     (initialState defaultOptions []) =
   Some (None,
     \<lparr>continueTokenVar = ''abc'', isFirstRequest = False, listed = 1, printed = 1, keysRead = 0,
      trace = [ListCall podsGVR ''default'' \<lparr>Limit = 10, Continue = [], LabelSelector = []\<rparr>
                 (Inr (tablePage 3 ''abc'')),
               PrintObjCall (tablePage 3 ''abc'') None,
               Fprintf_Out ''\<newline>Continue Token: %s\<newline>'' [''abc'']]\<rparr>)"
proof -
  let ?w = "cluster (\<lambda>k. Inr (tablePage 3 ''abc'')) (\<lambda>k. Inl EOF) :: Table world"
  let ?s = "initialState defaultOptions [] :: Table state"
  have 1: "\<not> interactive defaultOptions" by (simp add: defaultOptions_def)
  have 2: "listResponse ?w (listed ?s) = Inr (tablePage 3 ''abc'') \<and>
           tableContinue (tablePage 3 ''abc'') \<noteq> [] \<and>
           rendered ?w ?s (length (Rows (tablePage 3 ''abc'')))"
    by (simp add: rendered_def tablePage_def cluster_def)
  show ?thesis
    using single_pass_token_handoff [OF 1, of ?w "''default''" podsGVR ?s] 2
    by (auto simp: initialState_def defaultOptions_def request_def iteration_def Let_def cluster_def tablePage_def)
qed

subsection \<open>A continue token with the interactive flag\<close>

lemma iteration_starts_with_ListCall:
  "\<exists>rest. trace (snd (iteration opts w ns gvr s)) =
     trace s @ ListCall gvr ns (request opts (continueTokenVar s)) (listResponse w (listed s)) # rest"
  by (auto simp: iteration_def Let_def request_def split: sum.splits option.splits)

lemma written_prompt:
  "written (prompt :: 'p event) = ''\<newline>--- [n] next page, [q] quit: ''"
  by (simp add: prompt_def)

text \<open>
  Two runs in interactive mode on a response that carries a token. With one row and the
  keystroke \<^verbatim>\<open>q\<close>, a newline is written to standard output after the keystroke is read.
  With no row at all, \<^verbatim>\<open>No resources found.\<close> is printed and no prompt is shown.
\<close>

theorem interactive_keystroke_counterexample:
  "main [''pods''] (defaultOptions\<lparr>interactive := True\<rparr>)
     (cluster (\<lambda>k. Inr \<lparr>tableContinue = ''t1'', Rows = [[''pod-a'']]\<rparr>) (\<lambda>k. Inr 0x71)) =
     Some (0, [ResourceForCall \<lparr>Group = [], Version = [], Resource = ''pods''\<rparr> (Inr podsGVR),
               ListCall podsGVR ''default'' \<lparr>Limit = 10, Continue = [], LabelSelector = []\<rparr>
                 (Inr \<lparr>tableContinue = ''t1'', Rows = [[''pod-a'']]\<rparr>),
               PrintObjCall \<lparr>tableContinue = ''t1'', Rows = [[''pod-a'']]\<rparr> None,
               Fprintf_Out ''\<newline>--- [n] next page, [q] quit: '' [],
               ReadRuneCall (Inr 0x71),
               Println_Stdout]) \<and>
   written (Println_Stdout :: Table event) = ''\<newline>'' \<and>
   main [''pods''] (defaultOptions\<lparr>interactive := True\<rparr>)
     (cluster (\<lambda>k. Inr \<lparr>tableContinue = ''t1'', Rows = []\<rparr>) (\<lambda>k. Inr 0x6E)) =
     Some (0, [ResourceForCall \<lparr>Group = [], Version = [], Resource = ''pods''\<rparr> (Inr podsGVR),
               ListCall podsGVR ''default'' \<lparr>Limit = 10, Continue = [], LabelSelector = []\<rparr>
                 (Inr \<lparr>tableContinue = ''t1'', Rows = []\<rparr>),
               Fprintln_Out ''No resources found.''])"
  by code_simp

text \<open>
  C3, amended. In interactive mode, when a page that carries a non-empty token was
  rendered (it is not the empty first page, and the printer returned no error), the loop
  writes the prompt naming the two actions and reads one keystroke; when the read returns
  a character it writes one newline to standard output. On \<^verbatim>\<open>n\<close> the loop goes round
  again with the token of that response as the \<^verbatim>\<open>Continue\<close> of the next request; on any
  other character it returns successfully and writes nothing more (no token line, no
  end-of-list marker).
\<close>

theorem interactive_keystroke:
  assumes "interactive opts" and "listResponse w (listed s) = Inr table"
    and "tableContinue table \<noteq> []" and "rendered w s (length (Rows table))"
    and "readRune w (keysRead s) = Inr char"
  shows "\<exists>f s'.
           iteration opts w ns gvr s = (f, s') \<and>
           trace s' = trace s @
             [ListCall gvr ns (request opts (continueTokenVar s)) (Inr table),
              PrintObjCall table None, prompt, ReadRuneCall (Inr char), Println_Stdout] \<and>
           keysRead s' = Suc (keysRead s) \<and>
           written (prompt :: Table event) = ''\<newline>--- [n] next page, [q] quit: '' \<and>
           (if char = 0x6E
            then f = Next \<and> continueTokenVar s' = tableContinue table \<and>
                 loop opts w ns gvr s = loop opts w ns gvr s' \<and>
                 (\<exists>rest. trace (snd (iteration opts w ns gvr s')) =
                    trace s' @ ListCall gvr ns (request opts (tableContinue table))
                                 (listResponse w (Suc (listed s))) # rest)
            else f = Return None \<and> loop opts w ns gvr s = Some (None, s'))"
proof -
  let ?s' = "s\<lparr>continueTokenVar := tableContinue table, isFirstRequest := False,
       listed := Suc (listed s), printed := Suc (printed s), keysRead := Suc (keysRead s),
       trace := trace s @ [ListCall gvr ns (request opts (continueTokenVar s)) (Inr table),
                           PrintObjCall table None, prompt, ReadRuneCall (Inr char),
                           Println_Stdout]\<rparr>"
  have it: "iteration opts w ns gvr s = ((if char \<noteq> 0x6E then Return None else Next), ?s')"
    using assms(2,4,3,1,5) by (rule iteration_key)
  show ?thesis
  proof (cases "char = 0x6E")
    case True
    with it have n: "iteration opts w ns gvr s = (Next, ?s')" by simp
    from iteration_starts_with_ListCall [of opts w ns gvr ?s']
    obtain rest where "trace (snd (iteration opts w ns gvr ?s')) =
      trace ?s' @ ListCall gvr ns (request opts (tableContinue table))
                    (listResponse w (Suc (listed s))) # rest"
      by auto
    with n loop_Next [OF n] True show ?thesis
      by (simp add: written_prompt del: written.simps)
  next
    case False
    with it have r: "iteration opts w ns gvr s = (Return None, ?s')" by simp
    with loop_Return [OF r] False show ?thesis
      by (simp add: written_prompt del: written.simps)
  qed
qed

theorem interactive_keystroke_witness:
  "loop (defaultOptions\<lparr>interactive := True\<rparr>)
     (cluster (\<lambda>k. Inr (tablePage 5 ''t1'')) (\<lambda>k. Inr 0x78)) ''default'' podsGVR
     (initialState defaultOptions []) =
   Some (None,
     \<lparr>continueTokenVar = ''t1'', isFirstRequest = False, listed = 1, printed = 1, keysRead = 1,
      trace = [ListCall podsGVR ''default'' \<lparr>Limit = 10, Continue = [], LabelSelector = []\<rparr>
                 (Inr (tablePage 5 ''t1'')),
               PrintObjCall (tablePage 5 ''t1'') None, prompt,
               ReadRuneCall (Inr 0x78), Println_Stdout]\<rparr>)"
proof -
  let ?o = "defaultOptions\<lparr>interactive := True\<rparr>"
  let ?w = "cluster (\<lambda>k. Inr (tablePage 5 ''t1'')) (\<lambda>k. Inr 0x78) :: Table world"
  let ?s = "initialState defaultOptions [] :: Table state"
  have 1: "interactive ?o" by simp
  have 2: "listResponse ?w (listed ?s) = Inr (tablePage 5 ''t1'')" by (simp add: cluster_def)
  have 3: "tableContinue (tablePage 5 ''t1'') \<noteq> []" by (simp add: tablePage_def)
  have 4: "rendered ?w ?s (length (Rows (tablePage 5 ''t1'')))"
    by (simp add: rendered_def tablePage_def cluster_def)
  have 5: "readRune ?w (keysRead ?s) = Inr 0x78" by (simp add: cluster_def)
  show ?thesis
    using interactive_keystroke [OF 1 2 3 4 5, of "''default''" podsGVR]
    by (auto simp: initialState_def defaultOptions_def request_def iteration_def Let_def
          cluster_def tablePage_def prompt_def)
qed

subsection \<open>A keystroke that cannot be read\<close>

lemma iteration_dynamic_read_error:
  assumes "listResponse w (listed s) = Inr list" and "rendered w s (length (Items list))"
    and "ToPrinter w (outputFormat opts) = None"
    and "listContinue list \<noteq> []" and "interactive opts"
    and "readRune w (keysRead s) = Inl err"
  shows "iteration_dynamic opts w ns gvr s =
    (Return (Some err),
     s\<lparr>continueTokenVar := listContinue list, isFirstRequest := False,
       listed := Suc (listed s), printed := Suc (printed s), keysRead := Suc (keysRead s),
       trace := trace s @ [ListCall gvr ns (request opts (continueTokenVar s)) (Inr list),
                           PrintObjCall list None, prompt, ReadRuneCall (Inl err)]\<rparr>)"
  using assms by (auto simp: iteration_dynamic_def Let_def request_def rendered_def prompt_def)

text \<open>
  With standard input closed, the interactive run returns the error of \<^verbatim>\<open>ReadRune\<close> and
  the process exits with status 1; with the keystroke \<^verbatim>\<open>q\<close> on the same page it exits
  with status 0 after writing a newline.
\<close>

theorem read_failure_counterexample:
  "main [''pods''] (defaultOptions\<lparr>interactive := True\<rparr>)
     (cluster (\<lambda>k. Inr \<lparr>tableContinue = ''t1'', Rows = [[''pod-a'']]\<rparr>) (\<lambda>k. Inl EOF)) =
     Some (1, [ResourceForCall \<lparr>Group = [], Version = [], Resource = ''pods''\<rparr> (Inr podsGVR),
               ListCall podsGVR ''default'' \<lparr>Limit = 10, Continue = [], LabelSelector = []\<rparr>
                 (Inr \<lparr>tableContinue = ''t1'', Rows = [[''pod-a'']]\<rparr>),
               PrintObjCall \<lparr>tableContinue = ''t1'', Rows = [[''pod-a'']]\<rparr> None,
               Fprintf_Out ''\<newline>--- [n] next page, [q] quit: '' [],
               ReadRuneCall (Inl EOF)]) \<and>
   RunE [''pods''] (defaultOptions\<lparr>interactive := True\<rparr>)
     (cluster (\<lambda>k. Inr \<lparr>tableContinue = ''t1'', Rows = [[''pod-a'']]\<rparr>) (\<lambda>k. Inl EOF)) =
     Some (Some EOF,
              [ResourceForCall \<lparr>Group = [], Version = [], Resource = ''pods''\<rparr> (Inr podsGVR),
               ListCall podsGVR ''default'' \<lparr>Limit = 10, Continue = [], LabelSelector = []\<rparr>
                 (Inr \<lparr>tableContinue = ''t1'', Rows = [[''pod-a'']]\<rparr>),
               PrintObjCall \<lparr>tableContinue = ''t1'', Rows = [[''pod-a'']]\<rparr> None,
               Fprintf_Out ''\<newline>--- [n] next page, [q] quit: '' [],
               ReadRuneCall (Inl EOF)]) \<and>
   main [''pods''] (defaultOptions\<lparr>interactive := True\<rparr>)
     (cluster (\<lambda>k. Inr \<lparr>tableContinue = ''t1'', Rows = [[''pod-a'']]\<rparr>) (\<lambda>k. Inr 0x71)) =
     Some (0, [ResourceForCall \<lparr>Group = [], Version = [], Resource = ''pods''\<rparr> (Inr podsGVR),
               ListCall podsGVR ''default'' \<lparr>Limit = 10, Continue = [], LabelSelector = []\<rparr>
                 (Inr \<lparr>tableContinue = ''t1'', Rows = [[''pod-a'']]\<rparr>),
               PrintObjCall \<lparr>tableContinue = ''t1'', Rows = [[''pod-a'']]\<rparr> None,
               Fprintf_Out ''\<newline>--- [n] next page, [q] quit: '' [],
               ReadRuneCall (Inr 0x71),
               Println_Stdout])"
  by code_simp

text \<open>
  C1, amended. In interactive mode, when the keystroke after a rendered page with a token
  cannot be read, the loop stops at once: nothing is written after the prompt and no
  further request is sent, in both versions of \<^verbatim>\<open>Run\<close>. The error of the read is returned
  to the caller, so the process exits with status 1.
\<close>

theorem read_failure_is_returned:
  assumes "interactive opts" and "tableContinue table \<noteq> []"
    and "listResponse w (listed s) = Inr table" and "rendered w s (length (Rows table))"
    and "readRune w (keysRead s) = Inl err"
  shows "(\<exists>s'. iteration opts w ns gvr s = (Return (Some err), s') \<and>
               loop opts w ns gvr s = Some (Some err, s') \<and>
               trace s' = trace s @
                 [ListCall gvr ns (request opts (continueTokenVar s)) (Inr table),
                  PrintObjCall table None, prompt, ReadRuneCall (Inl err)]) \<and>
         exitCode (Some err) = 1 \<and>
         (\<forall>wd sd list.
            listResponse wd (listed sd) = Inr list \<and> listContinue list \<noteq> [] \<and>
            rendered wd sd (length (Items list)) \<and> ToPrinter wd (outputFormat opts) = None \<and>
            readRune wd (keysRead sd) = Inl err \<longrightarrow>
            (\<exists>sd'. iteration_dynamic opts wd ns gvr sd = (Return (Some err), sd') \<and>
                    loop_dynamic opts wd ns gvr sd = Some (Some err, sd') \<and>
                    trace sd' = trace sd @
                      [ListCall gvr ns (request opts (continueTokenVar sd)) (Inr list),
                       PrintObjCall list None, prompt, ReadRuneCall (Inl err)]))"
proof -
  have a: "\<exists>s'. iteration opts w ns gvr s = (Return (Some err), s') \<and>
               loop opts w ns gvr s = Some (Some err, s') \<and>
               trace s' = trace s @
                 [ListCall gvr ns (request opts (continueTokenVar s)) (Inr table),
                  PrintObjCall table None, prompt, ReadRuneCall (Inl err)]"
    using iteration_read_error [OF assms(3,4,2,1,5), of ns gvr]
    by (auto dest: loop_Return)
  have b: "\<exists>sd'. iteration_dynamic opts wd ns gvr sd = (Return (Some err), sd') \<and>
                    loop_dynamic opts wd ns gvr sd = Some (Some err, sd') \<and>
                    trace sd' = trace sd @
                      [ListCall gvr ns (request opts (continueTokenVar sd)) (Inr list),
                       PrintObjCall list None, prompt, ReadRuneCall (Inl err)]"
    if "listResponse wd (listed sd) = Inr list" "listContinue list \<noteq> []"
       "rendered wd sd (length (Items list))" "ToPrinter wd (outputFormat opts) = None"
       "readRune wd (keysRead sd) = Inl err"
    for wd sd list
    using iteration_dynamic_read_error [OF that(1,3,4,2) assms(1) that(5), of ns gvr]
    by (auto dest: loop_dynamic_Return)
  show ?thesis using a b by (simp add: exitCode_def)
qed

theorem read_failure_witness:
  "loop (defaultOptions\<lparr>interactive := True\<rparr>)
     (cluster (\<lambda>k. Inr (tablePage 5 ''t1'')) (\<lambda>k. Inl EOF)) ''default'' podsGVR
     (initialState defaultOptions []) =
   Some (Some EOF,
     \<lparr>continueTokenVar = ''t1'', isFirstRequest = False, listed = 1, printed = 1, keysRead = 1,
      trace = [ListCall podsGVR ''default'' \<lparr>Limit = 10, Continue = [], LabelSelector = []\<rparr>
                 (Inr (tablePage 5 ''t1'')),
               PrintObjCall (tablePage 5 ''t1'') None, prompt,
               ReadRuneCall (Inl EOF)]\<rparr>) \<and>
   exitCode (Some EOF) = 1"
proof -
  let ?o = "defaultOptions\<lparr>interactive := True\<rparr>"
  let ?w = "cluster (\<lambda>k. Inr (tablePage 5 ''t1'')) (\<lambda>k. Inl EOF) :: Table world"
  let ?s = "initialState defaultOptions [] :: Table state"
  have 1: "interactive ?o" by simp
  have 2: "listResponse ?w (listed ?s) = Inr (tablePage 5 ''t1'')" by (simp add: cluster_def)
  have 3: "tableContinue (tablePage 5 ''t1'') \<noteq> []" by (simp add: tablePage_def)
  have 4: "rendered ?w ?s (length (Rows (tablePage 5 ''t1'')))"
    by (simp add: rendered_def tablePage_def cluster_def)
  have 5: "readRune ?w (keysRead ?s) = Inl EOF" by (simp add: cluster_def)
  show ?thesis
    using read_failure_is_returned [OF 1 3 2 4 5, of "''default''" podsGVR]
    by (auto simp: initialState_def defaultOptions_def request_def iteration_def Let_def
          cluster_def tablePage_def prompt_def)
qed

subsection \<open>Resolving the resource argument\<close>

lemma Split_nonempty: "Split s sep \<noteq> []"
  by (induction s) (auto split: list.splits)

lemma length_Split: "length (Split s sep) = Suc (count_list s sep)"
  by (induction s) (auto split: list.splits simp: Split_nonempty)

lemma Split_no_separator: "sep \<notin> set s \<Longrightarrow> Split s sep = [s]"
  by (induction s) auto

lemma Split_one_separator:
  "count_list s sep = 1 \<Longrightarrow>
     \<exists>a b. s = a @ sep # b \<and> sep \<notin> set a \<and> sep \<notin> set b \<and> Split s sep = [a, b]"
proof (induction s)
  case Nil
  then show ?case by simp
next
  case (Cons c cs)
  show ?case
  proof (cases "c = sep")
    case True
    with Cons.prems have "count_list cs sep = 0" by simp
    then have "sep \<notin> set cs" by (simp add: count_list_0_iff)
    with True show ?thesis by (auto simp: Split_no_separator intro: exI [of _ "[]"])
  next
    case False
    with Cons.prems have "count_list cs sep = 1" by simp
    from Cons.IH [OF this] obtain a b
      where "cs = a @ sep # b" "sep \<notin> set a" "sep \<notin> set b" "Split cs sep = [a, b]" by blast
    with False show ?thesis by (auto intro: exI [of _ "c # a"])
  qed
qed

lemma Contains_append: "Contains (s @ t) s"
proof (cases "s @ t")
  case Nil
  then show ?thesis by simp
next
  case (Cons c u)
  have "take (length s) (s @ t) = s" by simp
  with Cons show ?thesis by simp
qed

lemma Contains_infix: "Contains (p @ s @ t) s"
proof (induction p)
  case Nil
  show ?case using Contains_append [of s t] by simp
next
  case (Cons c p)
  then show ?case by simp
qed

lemma escapeByte_plain:
  "(0x20::nat) \<le> of_char c \<Longrightarrow> (of_char c :: nat) < 0x7F \<Longrightarrow> c \<noteq> CHR 0x22 \<Longrightarrow>
     c \<noteq> CHR 0x5C \<Longrightarrow> escapeByte c = [c]"
  by (simp add: escapeByte_def Let_def)

lemma Quote_plainASCII: "plainASCII s \<Longrightarrow> Quote w s = [CHR 0x22] @ s @ [CHR 0x22]"
proof -
  assume p: "plainASCII s"
  then have "isASCII s"
    by (induction s) (auto simp: plainASCII_def isASCII_def)
  moreover from p have "concat (map escapeByte s) = s"
    by (induction s) (auto simp: plainASCII_def escapeByte_plain)
  ultimately show ?thesis by (simp add: Quote_def)
qed

text \<open>
  The message quotes the argument with \<^verbatim>\<open>%q\<close>: for the argument \<^verbatim>\<open>a"b\<close> it holds
  \<^verbatim>\<open>"a\"b"\<close>, in which the argument does not occur.
\<close>

theorem unknown_resource_counterexample:
  "getResourceGVR (cluster (\<lambda>k. Inl EOF) (\<lambda>k. Inl EOF) :: Table world)
     (defaultOptions\<lparr>resource := [CHR ''a'', CHR 0x22, CHR ''b'']\<rparr>) =
     Inl (Errorf (''the server doesn't have a resource type '' @
                  [CHR 0x22, CHR ''a'', CHR 0x5C, CHR 0x22, CHR ''b'', CHR 0x22])) \<and>
   \<not> Contains (''the server doesn't have a resource type '' @
                  [CHR 0x22, CHR ''a'', CHR 0x5C, CHR 0x22, CHR ''b'', CHR 0x22])
        [CHR ''a'', CHR 0x22, CHR ''b'']"
  by code_simp

text \<open>
  C8, amended. The argument is lower-cased first. If the lower-cased argument has exactly
  one dot, the segment before it is the resource name and the segment after it the group;
  otherwise the whole lower-cased argument is the resource name and the group is empty.
  When the mapper returns an error, the result is the error whose message ends with the
  original argument as \<^verbatim>\<open>%q\<close> quotes it; when the argument is printable ASCII without
  double quote and backslash, that is the argument itself between double quotes, so the
  message contains the argument verbatim.
\<close>

theorem getResourceGVR_resolution:
  "(count_list (ToLower w (resource opts)) (CHR ''.'') = 1 \<longrightarrow>
      (\<exists>name grp. ToLower w (resource opts) = name @ ''.'' @ grp \<and>
         CHR ''.'' \<notin> set name \<and> CHR ''.'' \<notin> set grp \<and>
         gvrToFind w opts = \<lparr>Group = grp, Version = [], Resource = name\<rparr>)) \<and>
   (count_list (ToLower w (resource opts)) (CHR ''.'') \<noteq> 1 \<longrightarrow>
      gvrToFind w opts = \<lparr>Group = [], Version = [], Resource = ToLower w (resource opts)\<rparr>) \<and>
   (isASCII (resource opts) \<longrightarrow> ToLower w (resource opts) = map lowerByte (resource opts)) \<and>
   (\<forall>err. ResourceFor w (gvrToFind w opts) = Inl err \<longrightarrow>
      getResourceGVR w opts =
        Inl (Errorf (''the server doesn't have a resource type '' @ Quote w (resource opts))) \<and>
      (plainASCII (resource opts) \<longrightarrow>
         Quote w (resource opts) = [CHR 0x22] @ resource opts @ [CHR 0x22] \<and>
         Contains (''the server doesn't have a resource type '' @ Quote w (resource opts))
           (resource opts)))"
proof -
  let ?l = "ToLower w (resource opts)"
  have one: "\<exists>name grp. ?l = name @ ''.'' @ grp \<and>
         CHR ''.'' \<notin> set name \<and> CHR ''.'' \<notin> set grp \<and>
         gvrToFind w opts = \<lparr>Group = grp, Version = [], Resource = name\<rparr>"
    if "count_list ?l (CHR ''.'') = 1"
  proof -
    from Split_one_separator [OF that] obtain a b
      where ab: "?l = a @ CHR ''.'' # b" "CHR ''.'' \<notin> set a" "CHR ''.'' \<notin> set b"
        "Split ?l (CHR ''.'') = [a, b]" by blast
    then have "gvrToFind w opts = \<lparr>Group = b, Version = [], Resource = a\<rparr>"
      by (simp add: gvrToFind_def Let_def)
    with ab show ?thesis by auto
  qed
  have other: "gvrToFind w opts = \<lparr>Group = [], Version = [], Resource = ?l\<rparr>"
    if "count_list ?l (CHR ''.'') \<noteq> 1"
    using that by (simp add: gvrToFind_def Let_def length_Split)
  have lower: "isASCII (resource opts) \<longrightarrow> ?l = map lowerByte (resource opts)"
    by (simp add: ToLower_def)
  have msg: "getResourceGVR w opts =
        Inl (Errorf (''the server doesn't have a resource type '' @ Quote w (resource opts)))"
    if "ResourceFor w (gvrToFind w opts) = Inl err" for err
    using that by (simp add: getResourceGVR_def)
  have verb: "Quote w (resource opts) = [CHR 0x22] @ resource opts @ [CHR 0x22] \<and>
         Contains (''the server doesn't have a resource type '' @ Quote w (resource opts))
           (resource opts)"
    if "plainASCII (resource opts)"
  proof -
    have q: "Quote w (resource opts) = [CHR 0x22] @ resource opts @ [CHR 0x22]"
      using that by (rule Quote_plainASCII)
    have "Contains ((''the server doesn't have a resource type '' @ [CHR 0x22]) @
                     resource opts @ [CHR 0x22]) (resource opts)"
      by (rule Contains_infix)
    with q show ?thesis by simp
  qed
  show ?thesis using one other lower msg verb by blast
qed

theorem getResourceGVR_resolution_witness:
  "gvrToFind (cluster (\<lambda>k. Inl EOF) (\<lambda>k. Inl EOF) :: Table world)
     (defaultOptions\<lparr>resource := ''Widgets.Example''\<rparr>) =
     \<lparr>Group = ''example'', Version = [], Resource = ''widgets''\<rparr> \<and>
   getResourceGVR (cluster (\<lambda>k. Inl EOF) (\<lambda>k. Inl EOF) :: Table world)
     (defaultOptions\<lparr>resource := ''Widgets.Example''\<rparr>) =
     Inl (Errorf (''the server doesn't have a resource type '' @
                  [CHR 0x22] @ ''Widgets.Example'' @ [CHR 0x22]))"
proof -
  let ?w = "cluster (\<lambda>k. Inl EOF) (\<lambda>k. Inl EOF) :: Table world"
  let ?o = "defaultOptions\<lparr>resource := ''Widgets.Example''\<rparr>"
  have l: "ToLower ?w (resource ?o) = ''widgets.example''" by code_simp
  have 1: "count_list (ToLower ?w (resource ?o)) (CHR ''.'') = 1" unfolding l by simp
  have g: "gvrToFind ?w ?o = \<lparr>Group = ''example'', Version = [], Resource = ''widgets''\<rparr>"
    by code_simp
  have 2: "ResourceFor ?w (gvrToFind ?w ?o) = Inl (LibraryError ''no matches for kind'')"
    unfolding g by (simp add: cluster_def)
  have 3: "plainASCII (resource ?o)" by code_simp
  show ?thesis
    using getResourceGVR_resolution [of ?w ?o] 1 2 3 g by simp
qed

subsection \<open>Termination\<close>

lemma iteration_Next_iff:
  "fst (iteration opts w ns gvr s) = Next \<longleftrightarrow>
     (\<exists>table. listResponse w (listed s) = Inr table \<and> tableContinue table \<noteq> [] \<and>
        rendered w s (length (Rows table)) \<and> interactive opts \<and>
        readRune w (keysRead s) = Inr 0x6E)"
  by (auto simp: iteration_def Let_def rendered_def split: sum.splits option.splits)

lemma iteration_counts:
  "listed (snd (iteration opts w ns gvr s)) = Suc (listed s) \<and>
   (\<exists>new. trace (snd (iteration opts w ns gvr s)) = trace s @ new \<and> listCalls new = 1) \<and>
   (fst (iteration opts w ns gvr s) = Next \<longrightarrow>
      keysRead (snd (iteration opts w ns gvr s)) = Suc (keysRead s))"
  by (auto simp: iteration_def Let_def listCalls_def split: sum.splits option.splits)

lemma loop_terminates_by_response:
  assumes "\<not> carriesToken (listResponse w n)" and "listed s \<le> n"
  shows "\<exists>r s' new. loop opts w ns gvr s = Some (r, s') \<and> trace s' = trace s @ new \<and>
           listCalls new \<le> Suc n - listed s"
  using assms(2)
proof (induction "n - listed s" arbitrary: s)
  case 0
  obtain f s1 where it: "iteration opts w ns gvr s = (f, s1)" by (cases "iteration opts w ns gvr s")
  from 0 have "listed s = n" by simp
  with assms(1) have "f \<noteq> Next"
    using iteration_Next_iff [of opts w ns gvr s] it by (auto simp: carriesToken_def)
  then obtain r where "f = Return r" by (cases f) auto
  with it have "loop opts w ns gvr s = Some (r, s1)" by (simp add: loop_Return)
  moreover from iteration_counts [of opts w ns gvr s] it
  obtain new where "trace s1 = trace s @ new" "listCalls new = 1" by auto
  ultimately show ?case using \<open>listed s = n\<close> by auto
next
  case (Suc d)
  obtain f s1 where it: "iteration opts w ns gvr s = (f, s1)" by (cases "iteration opts w ns gvr s")
  from iteration_counts [of opts w ns gvr s] it
  obtain new where new: "trace s1 = trace s @ new" "listCalls new = 1"
    and l1: "listed s1 = Suc (listed s)" by auto
  show ?case
  proof (cases f)
    case (Return r)
    with it have "loop opts w ns gvr s = Some (r, s1)" by (simp add: loop_Return)
    with new Suc.hyps(2) show ?thesis by auto
  next
    case Next
    from Suc.hyps(2) l1 have "d = n - listed s1" "listed s1 \<le> n" by simp_all
    from Suc.hyps(1) [OF this] obtain r s' new'
      where "loop opts w ns gvr s1 = Some (r, s')" "trace s' = trace s1 @ new'"
        "listCalls new' \<le> Suc n - listed s1" by blast
    moreover from it Next have "loop opts w ns gvr s = loop opts w ns gvr s1"
      by (simp add: loop_Next)
    ultimately have "loop opts w ns gvr s = Some (r, s') \<and> trace s' = trace s @ (new @ new') \<and>
       listCalls (new @ new') \<le> Suc n - listed s"
      using new l1 Suc.hyps(2) by (simp add: listCalls_def)
    then show ?thesis by blast
  qed
qed

lemma loop_terminates_by_key:
  assumes "readRune w n \<noteq> Inr 0x6E" and "keysRead s \<le> n"
  shows "\<exists>r s' new. loop opts w ns gvr s = Some (r, s') \<and> trace s' = trace s @ new \<and>
           listCalls new \<le> Suc n - keysRead s"
  using assms(2)
proof (induction "n - keysRead s" arbitrary: s)
  case 0
  obtain f s1 where it: "iteration opts w ns gvr s = (f, s1)" by (cases "iteration opts w ns gvr s")
  from 0 have "keysRead s = n" by simp
  with assms(1) have "f \<noteq> Next"
    using iteration_Next_iff [of opts w ns gvr s] it by auto
  then obtain r where "f = Return r" by (cases f) auto
  with it have "loop opts w ns gvr s = Some (r, s1)" by (simp add: loop_Return)
  moreover from iteration_counts [of opts w ns gvr s] it
  obtain new where "trace s1 = trace s @ new" "listCalls new = 1" by auto
  ultimately show ?case using \<open>keysRead s = n\<close> by auto
next
  case (Suc d)
  obtain f s1 where it: "iteration opts w ns gvr s = (f, s1)" by (cases "iteration opts w ns gvr s")
  from iteration_counts [of opts w ns gvr s] it
  obtain new where new: "trace s1 = trace s @ new" "listCalls new = 1"
    and k1: "f = Next \<longrightarrow> keysRead s1 = Suc (keysRead s)" by auto
  show ?case
  proof (cases f)
    case (Return r)
    with it have "loop opts w ns gvr s = Some (r, s1)" by (simp add: loop_Return)
    with new Suc.hyps(2) show ?thesis by auto
  next
    case Next
    with k1 have k: "keysRead s1 = Suc (keysRead s)" by simp
    with Suc.hyps(2) have "d = n - keysRead s1" "keysRead s1 \<le> n" by simp_all
    from Suc.hyps(1) [OF this] obtain r s' new'
      where "loop opts w ns gvr s1 = Some (r, s')" "trace s' = trace s1 @ new'"
        "listCalls new' \<le> Suc n - keysRead s1" by blast
    moreover from it Next have "loop opts w ns gvr s = loop opts w ns gvr s1"
      by (simp add: loop_Next)
    ultimately have "loop opts w ns gvr s = Some (r, s') \<and> trace s' = trace s @ (new @ new') \<and>
       listCalls (new @ new') \<le> Suc n - keysRead s"
      using new k Suc.hyps(2) by (simp add: listCalls_def)
    then show ?thesis by blast
  qed
qed

lemma Run_returns_if_loop_returns:
  assumes "\<And>ns gvr tr0. listCalls tr0 = 0 \<Longrightarrow>
             \<exists>r s' new. loop opts w ns gvr (initialState opts tr0) = Some (r, s') \<and>
               trace s' = tr0 @ new \<and> listCalls new \<le> b"
  shows "\<exists>r tr. Run opts w = Some (r, tr) \<and> listCalls tr \<le> b"
proof (cases "getResourceGVR w opts")
  case (Inl err)
  then show ?thesis by (simp add: Run_def listCalls_def)
next
  case (Inr gvr)
  let ?tr0 = "[ResourceForCall (gvrToFind w opts) (ResourceFor w (gvrToFind w opts))] :: Table event list"
  let ?ns = "if allNamespaces opts then [] else namespace opts"
  show ?thesis
  proof (cases "newRestClient w (Group gvr, Version gvr)")
    case (Some err)
    with Inr show ?thesis by (simp add: Run_def listCalls_def)
  next
    case None
    have "listCalls ?tr0 = 0" by (simp add: listCalls_def)
    from assms [OF this, of ?ns gvr] obtain r s' new
      where "loop opts w ?ns gvr (initialState opts ?tr0) = Some (r, s')"
        "trace s' = ?tr0 @ new" "listCalls new \<le> b" by blast
    with Inr None show ?thesis by (simp add: Run_def initialState_def listCalls_def)
  qed
qed

text \<open>
  C9. Against a collection of \<open>P\<close> pages, \<^verbatim>\<open>Run\<close> returns, whatever the keystrokes, after
  at most \<open>P + 1\<close> passes through the loop. A pass goes round again only in interactive
  mode, on a response that carries a token, when the keystroke read is \<^verbatim>\<open>n\<close>; every other
  branch returns. So \<^verbatim>\<open>Run\<close> also returns, after at most \<open>K + 1\<close> passes, as soon as the
  \<open>K\<close>-th read is not the keystroke \<^verbatim>\<open>n\<close>, whatever the server answers.
\<close>

theorem Run_terminates:
  assumes "servesPages w P"
  shows "(\<exists>r tr. Run opts w = Some (r, tr) \<and> listCalls tr \<le> P + 1) \<and>
         (\<forall>ns gvr s. fst (iteration opts w ns gvr s) = Next \<longrightarrow>
            interactive opts \<and> carriesToken (listResponse w (listed s)) \<and>
            readRune w (keysRead s) = Inr 0x6E) \<and>
         (\<forall>K. readRune w K \<noteq> Inr 0x6E \<longrightarrow>
            (\<exists>r tr. Run opts w = Some (r, tr) \<and> listCalls tr \<le> K + 1))"
proof -
  from assms have last: "\<not> carriesToken (listResponse w (P - 1))"
    by (auto simp: servesPages_def isLastPage_def carriesToken_def split: sum.splits)
  have "\<exists>r s' new. loop opts w ns gvr (initialState opts tr0) = Some (r, s') \<and>
               trace s' = tr0 @ new \<and> listCalls new \<le> P + 1" for ns gvr and tr0 :: "Table event list"
    using loop_terminates_by_response [OF last, of "initialState opts tr0" opts ns gvr]
    by (auto simp: initialState_def)
  then have a: "\<exists>r tr. Run opts w = Some (r, tr) \<and> listCalls tr \<le> P + 1"
    by (intro Run_returns_if_loop_returns) blast
  have b: "interactive opts \<and> carriesToken (listResponse w (listed s)) \<and>
            readRune w (keysRead s) = Inr 0x6E"
    if "fst (iteration opts w ns gvr s) = Next" for ns gvr s
    using that iteration_Next_iff [of opts w ns gvr s] by (auto simp: carriesToken_def)
  have c: "\<exists>r tr. Run opts w = Some (r, tr) \<and> listCalls tr \<le> K + 1"
    if k: "readRune w K \<noteq> Inr 0x6E" for K
  proof -
    have "\<exists>r s' new. loop opts w ns gvr (initialState opts tr0) = Some (r, s') \<and>
               trace s' = tr0 @ new \<and> listCalls new \<le> K + 1" for ns gvr and tr0 :: "Table event list"
      using loop_terminates_by_key [OF k, of "initialState opts tr0" opts ns gvr]
      by (auto simp: initialState_def)
    then show ?thesis by (intro Run_returns_if_loop_returns) blast
  qed
  show ?thesis using a b c by blast
qed

theorem Run_terminates_witness:
  "servesPages
     (cluster (script [Inr (tablePage 5 ''t1''), Inr (tablePage 5 ''t2'')] (Inr (tablePage 2 [])))
        (\<lambda>k. Inr 0x6E)) 3 \<and>
   Run (defaultOptions\<lparr>resource := ''pods'', interactive := True\<rparr>)
     (cluster (script [Inr (tablePage 5 ''t1''), Inr (tablePage 5 ''t2'')] (Inr (tablePage 2 [])))
        (\<lambda>k. Inr 0x6E)) \<noteq> None \<and>
   listCalls (snd (the (Run (defaultOptions\<lparr>resource := ''pods'', interactive := True\<rparr>)
     (cluster (script [Inr (tablePage 5 ''t1''), Inr (tablePage 5 ''t2'')] (Inr (tablePage 2 [])))
        (\<lambda>k. Inr 0x6E))))) \<le> 3 + 1"
proof -
  let ?w = "cluster (script [Inr (tablePage 5 ''t1''), Inr (tablePage 5 ''t2'')]
                       (Inr (tablePage 2 []))) (\<lambda>k. Inr 0x6E) :: Table world"
  have h: "servesPages ?w 3" by code_simp
  show ?thesis
    using Run_terminates [OF h, of "defaultOptions\<lparr>resource := ''pods'', interactive := True\<rparr>"] h
    by auto
qed

subsection \<open>The continue token is passed back as it came\<close>

lemma tokensChained_skip:
  "listCalls pre = 0 \<Longrightarrow> tokensChained t (pre @ es) = tokensChained t es"
proof (induction pre)
  case Nil
  show ?case by simp
next
  case (Cons e pre)
  then show ?case by (cases e) (simp_all add: listCalls_def)
qed

lemma iteration_chain:
  "\<exists>rest. trace (snd (iteration opts w ns gvr s)) =
            trace s @ ListCall gvr ns (request opts (continueTokenVar s)) (listResponse w (listed s)) # rest \<and>
          listCalls rest = 0 \<and>
          (fst (iteration opts w ns gvr s) = Next \<longrightarrow>
             (\<exists>table. listResponse w (listed s) = Inr table \<and>
                continueTokenVar (snd (iteration opts w ns gvr s)) = tableContinue table))"
  by (auto simp: iteration_def Let_def request_def listCalls_def split: sum.splits option.splits)


lemma loop_tokensChained:
  assumes "loop opts w ns gvr s = Some y"
  shows "\<exists>new. trace (snd y) = trace s @ new \<and> tokensChained (continueTokenVar s) new"
  using assms
proof (induction rule: loop_induct)
  case (Return s r s')
  from iteration_chain [of opts w ns gvr s] Return obtain rest
    where tr: "trace s' = trace s @ ListCall gvr ns (request opts (continueTokenVar s))
                                      (listResponse w (listed s)) # rest"
      and nl: "listCalls rest = 0"
    by auto
  from nl have "tokensChained t rest" for t
    using tokensChained_skip [of rest t "[]"] by simp
  with nl have "tokensChained (continueTokenVar s)
            (ListCall gvr ns (request opts (continueTokenVar s)) (listResponse w (listed s)) # rest)"
    by (simp add: request_def split: sum.splits)
  with tr show ?case by simp
next
  case (Next s s' y)
  from iteration_chain [of opts w ns gvr s] Next(1) obtain rest table
    where tr: "trace s' = trace s @ ListCall gvr ns (request opts (continueTokenVar s))
                                      (listResponse w (listed s)) # rest"
      and nl: "listCalls rest = 0"
      and resp: "listResponse w (listed s) = Inr table"
      and tok: "continueTokenVar s' = tableContinue table"
    by auto
  from Next(3) obtain new
    where new: "trace (snd y) = trace s' @ new" "tokensChained (continueTokenVar s') new"
    by blast
  have "tokensChained (continueTokenVar s)
          (ListCall gvr ns (request opts (continueTokenVar s)) (Inr table) # rest @ new)"
    using new(2) tok nl by (simp add: request_def tokensChained_skip)
  with tr new(1) resp show ?case by simp
qed

lemma renameWorld_fields [simp]:
  "unicodeToLower (renameWorld f w) = unicodeToLower w"
  "unicodeQuote (renameWorld f w) = unicodeQuote w"
  "ResourceFor (renameWorld f w) = ResourceFor w"
  "RESTClientFor (renameWorld f w) = RESTClientFor w"
  "printResult (renameWorld f w) = printResult w"
  "readRune (renameWorld f w) = readRune w"
  "listResponse (renameWorld f w) k = map_sum (\<lambda>e. e) (renameTable f) (listResponse w k)"
  by (simp_all add: renameWorld_def)

lemma renameState_fields [simp]:
  "continueTokenVar (renameState f s) = f (continueTokenVar s)"
  "isFirstRequest (renameState f s) = isFirstRequest s"
  "listed (renameState f s) = listed s"
  "printed (renameState f s) = printed s"
  "keysRead (renameState f s) = keysRead s"
  "trace (renameState f s) = map (renameEvent f) (trace s)"
  by (simp_all add: renameState_def)

lemma iteration_rename:
  assumes "\<forall>t. (f t = []) = (t = [])"
  shows "iteration (opts\<lparr>continueToken := c\<rparr>) (renameWorld f w) ns gvr (renameState f s) =
           (fst (iteration opts w ns gvr s), renameState f (snd (iteration opts w ns gvr s)))"
  using assms
  by (cases "listResponse w (listed s)")
     (auto simp: iteration_def Let_def renameState_def renameTable_def split: option.splits sum.splits)

lemma loop_rename_forward:
  assumes "\<forall>t. (f t = []) = (t = [])" and "loop opts w ns gvr s = Some y"
  shows "loop (opts\<lparr>continueToken := c\<rparr>) (renameWorld f w) ns gvr (renameState f s) =
           Some (fst y, renameState f (snd y))"
  using assms(2)
proof (induction rule: loop_induct)
  case (Return s r s')
  then show ?case
    by (simp add: loop_Return iteration_rename [OF assms(1)])
next
  case (Next s s' y)
  then show ?case
    by (simp add: loop_Next iteration_rename [OF assms(1)])
qed

lemma loop_rename_backward:
  assumes "\<forall>t. (f t = []) = (t = [])"
    and "loop (opts\<lparr>continueToken := c\<rparr>) (renameWorld f w) ns gvr (renameState f s) = Some y"
  shows "\<exists>z. loop opts w ns gvr s = Some z"
  using assms(2)
proof (induction "renameState f s" y arbitrary: s rule: loop_induct)
  case (Return r s')
  then have "fst (iteration opts w ns gvr s) = Return r"
    by (simp add: iteration_rename [OF assms(1)])
  then have "iteration opts w ns gvr s = (Return r, snd (iteration opts w ns gvr s))"
    by (cases "iteration opts w ns gvr s") simp
  then show ?case by (simp add: loop_Return)
next
  case (Next s' y)
  from Next(1) have "fst (iteration opts w ns gvr s) = Next"
    and s': "s' = renameState f (snd (iteration opts w ns gvr s))"
    by (simp_all add: iteration_rename [OF assms(1)])
  then have it: "iteration opts w ns gvr s = (Next, snd (iteration opts w ns gvr s))"
    by (cases "iteration opts w ns gvr s") simp
  from Next(3) [OF s'] obtain z
    where "loop opts w ns gvr (snd (iteration opts w ns gvr s)) = Some z" ..
  with loop_Next [OF it] show ?case by simp
qed

lemma loop_rename:
  assumes "\<forall>t. (f t = []) = (t = [])"
  shows "loop (opts\<lparr>continueToken := c\<rparr>) (renameWorld f w) ns gvr (renameState f s) =
           map_option (\<lambda>(r, s'). (r, renameState f s')) (loop opts w ns gvr s)"
proof (cases "loop opts w ns gvr s")
  case None
  with loop_rename_backward [OF assms, where opts = opts and c = c and w = w and ns = ns
      and gvr = gvr and s = s] show ?thesis
    by (cases "loop (opts\<lparr>continueToken := c\<rparr>) (renameWorld f w) ns gvr (renameState f s)") auto
next
  case (Some y)
  with loop_rename_forward [OF assms Some, where c = c] show ?thesis
    by (simp add: case_prod_beta)
qed

lemma gvrToFind_rename [simp]:
  "gvrToFind (renameWorld f w) (opts\<lparr>continueToken := c\<rparr>) = gvrToFind w opts"
  by (simp add: gvrToFind_def ToLower_def)

lemma getResourceGVR_rename [simp]:
  "getResourceGVR (renameWorld f w) (opts\<lparr>continueToken := c\<rparr>) = getResourceGVR w opts"
  by (simp add: getResourceGVR_def Quote_def split: sum.splits)

lemma Run_rename:
  assumes "\<forall>t. (f t = []) = (t = [])"
  shows "Run (opts\<lparr>continueToken := f (continueToken opts)\<rparr>) (renameWorld f w) =
           map_option (\<lambda>(r, tr). (r, map (renameEvent f) tr)) (Run opts w)"
proof (cases "getResourceGVR w opts")
  case (Inl err)
  then show ?thesis by (simp add: Run_def)
next
  case (Inr gvr)
  let ?tr0 = "[ResourceForCall (gvrToFind w opts) (ResourceFor w (gvrToFind w opts))] :: Table event list"
  let ?s0 = "\<lparr>continueTokenVar = continueToken opts, isFirstRequest = True,
               listed = 0, printed = 0, keysRead = 0, trace = ?tr0\<rparr>"
  have init: "\<lparr>continueTokenVar = f (continueToken opts), isFirstRequest = True,
               listed = 0, printed = 0, keysRead = 0, trace = ?tr0\<rparr> = renameState f ?s0"
    by (simp add: renameState_def)
  show ?thesis
  proof (cases "newRestClient w (Group gvr, Version gvr)")
    case (Some err)
    with Inr show ?thesis by (simp add: Run_def newRestClient_def)
  next
    case None
    then have "newRestClient (renameWorld f w) (Group gvr, Version gvr) = None"
      by (simp add: newRestClient_def)
    with Inr None show ?thesis
      unfolding Run_def Let_def
      by (simp add: init loop_rename [OF assms] option.map_comp case_prod_beta comp_def
            del: renameState_fields) simp
  qed
qed

lemma passes_Return_loop:
  "passes k opts w ns gvr s = (Return r, s') \<Longrightarrow> loop opts w ns gvr s = Some (r, s')"
proof (induction k arbitrary: s)
  case 0
  then show ?case by simp
next
  case (Suc k)
  obtain f s1 where it: "iteration opts w ns gvr s = (f, s1)"
    by (cases "iteration opts w ns gvr s")
  show ?case
  proof (cases f)
    case (Return r')
    with it Suc.prems show ?thesis by (simp add: loop_Return)
  next
    case Next
    with it Suc.prems have "passes k opts w ns gvr s1 = (Return r, s')" by simp
    from Suc.IH [OF this] it Next show ?thesis by (simp add: loop_Next)
  qed
qed

lemma loop_passes:
  assumes "loop opts w ns gvr s = Some y"
  shows "\<exists>k. passes k opts w ns gvr s = (Return (fst y), snd y)"
  using assms
proof (induction rule: loop_induct)
  case (Return s r s')
  then have "passes (Suc 0) opts w ns gvr s = (Return r, s')" by simp
  then show ?case by (intro exI [of _ "Suc 0"]) simp
next
  case (Next s s' y)
  then obtain k where "passes k opts w ns gvr s' = (Return (fst y), snd y)" by blast
  with Next(1) have "passes (Suc k) opts w ns gvr s = (Return (fst y), snd y)" by simp
  then show ?case by blast
qed

lemma passes_tokensChained:
  "\<exists>new. trace (snd (passes k opts w ns gvr s)) = trace s @ new \<and>
          tokensChained (continueTokenVar s) new"
proof (induction k arbitrary: s)
  case 0
  show ?case by simp
next
  case (Suc k)
  obtain f s1 where it: "iteration opts w ns gvr s = (f, s1)"
    by (cases "iteration opts w ns gvr s")
  from iteration_chain [of opts w ns gvr s] it obtain rest
    where tr: "trace s1 = trace s @ ListCall gvr ns (request opts (continueTokenVar s))
                                      (listResponse w (listed s)) # rest"
      and nl: "listCalls rest = 0"
      and nx: "f = Next \<longrightarrow> (\<exists>table. listResponse w (listed s) = Inr table \<and>
                 continueTokenVar s1 = tableContinue table)"
    by auto
  show ?case
  proof (cases f)
    case (Return r)
    from nl have "tokensChained t rest" for t
      using tokensChained_skip [of rest t "[]"] by simp
    with nl have "tokensChained (continueTokenVar s)
            (ListCall gvr ns (request opts (continueTokenVar s)) (listResponse w (listed s)) # rest)"
      by (simp add: request_def split: sum.splits)
    with it Return tr show ?thesis by simp
  next
    case Next
    with nx obtain table where resp: "listResponse w (listed s) = Inr table"
      and tok: "continueTokenVar s1 = tableContinue table" by blast
    from Suc.IH [of s1] obtain new
      where new: "trace (snd (passes k opts w ns gvr s1)) = trace s1 @ new"
        "tokensChained (continueTokenVar s1) new" by blast
    have "tokensChained (continueTokenVar s)
          (ListCall gvr ns (request opts (continueTokenVar s)) (Inr table) # rest @ new)"
      using new(2) tok nl by (simp add: request_def tokensChained_skip)
    with it Next tr new(1) resp show ?thesis by simp
  qed
qed

lemma passes_rename:
  assumes "\<forall>t. (f t = []) = (t = [])"
  shows "passes k (opts\<lparr>continueToken := c\<rparr>) (renameWorld f w) ns gvr (renameState f s) =
           (fst (passes k opts w ns gvr s), renameState f (snd (passes k opts w ns gvr s)))"
proof (induction k arbitrary: s)
  case 0
  show ?case by simp
next
  case (Suc k)
  obtain g s1 where it: "iteration opts w ns gvr s = (g, s1)"
    by (cases "iteration opts w ns gvr s")
  then show ?case
    by (cases g) (simp_all add: iteration_rename [OF assms] Suc.IH)
qed

lemma Run_tokensChained:
  assumes "Run opts w = Some (r, tr)"
  shows "tokensChained (continueToken opts) tr"
proof (cases "getResourceGVR w opts")
  case (Inl err)
  with assms show ?thesis by (auto simp: Run_def)
next
  case (Inr gvr)
  let ?tr0 = "[ResourceForCall (gvrToFind w opts) (ResourceFor w (gvrToFind w opts))] :: Table event list"
  let ?ns = "if allNamespaces opts then [] else namespace opts"
  show ?thesis
  proof (cases "newRestClient w (Group gvr, Version gvr)")
    case (Some err)
    with Inr assms show ?thesis by (auto simp: Run_def)
  next
    case None
    with Inr assms obtain s'
      where l: "loop opts w ?ns gvr (initialState opts ?tr0) = Some (r, s')" and tr: "tr = trace s'"
      by (auto simp: Run_def initialState_def)
    from loop_tokensChained [OF l] obtain new
      where "trace s' = ?tr0 @ new" "tokensChained (continueToken opts) new"
      by (auto simp: initialState_def)
    with tr show ?thesis by simp
  qed
qed

text \<open>
  C7. In every run, the first list request carries the token of the options and each
  later request carries, unchanged, the token of the response before it: this holds of
  the trace of a run that returns and of the trace after any number of passes. The
  program does not look into a token beyond testing it for emptiness: if the tokens the
  server returns and the token of the options are renamed by a function that maps the
  empty token, and only it, to the empty token, the run makes the same calls, writes and
  reads and returns the same result (or does not return either), pass by pass, with the
  renamed tokens in place of the original ones.
\<close>

theorem token_round_trip:
  "(\<forall>r tr. Run opts w = Some (r, tr) \<longrightarrow> tokensChained (continueToken opts) tr) \<and>
   (\<forall>k ns gvr tr0. listCalls tr0 = 0 \<longrightarrow>
      tokensChained (continueToken opts)
        (trace (snd (passes k opts w ns gvr (initialState opts tr0))))) \<and>
   ((\<forall>t. (f t = []) = (t = [])) \<longrightarrow>
      Run (opts\<lparr>continueToken := f (continueToken opts)\<rparr>) (renameWorld f w) =
        map_option (\<lambda>(r, tr). (r, map (renameEvent f) tr)) (Run opts w) \<and>
      (\<forall>k ns gvr s.
         passes k (opts\<lparr>continueToken := f (continueToken opts)\<rparr>) (renameWorld f w) ns gvr
           (renameState f s) =
         (fst (passes k opts w ns gvr s), renameState f (snd (passes k opts w ns gvr s)))))"
proof -
  have a: "tokensChained (continueToken opts)
        (trace (snd (passes k opts w ns gvr (initialState opts tr0))))"
    if "listCalls tr0 = 0" for k ns gvr and tr0 :: "Table event list"
  proof -
    from passes_tokensChained [of k opts w ns gvr "initialState opts tr0"] obtain new
      where "trace (snd (passes k opts w ns gvr (initialState opts tr0))) = tr0 @ new"
        "tokensChained (continueToken opts) new"
      by (auto simp: initialState_def)
    with that show ?thesis by (simp add: tokensChained_skip)
  qed
  have b: "\<forall>r tr. Run opts w = Some (r, tr) \<longrightarrow> tokensChained (continueToken opts) tr"
    using Run_tokensChained [of opts w] by simp
  have c: "Run (opts\<lparr>continueToken := f (continueToken opts)\<rparr>) (renameWorld f w) =
        map_option (\<lambda>(r, tr). (r, map (renameEvent f) tr)) (Run opts w) \<and>
      (\<forall>k ns gvr s.
         passes k (opts\<lparr>continueToken := f (continueToken opts)\<rparr>) (renameWorld f w) ns gvr
           (renameState f s) =
         (fst (passes k opts w ns gvr s), renameState f (snd (passes k opts w ns gvr s))))"
    if f: "\<forall>t. (f t = []) = (t = [])"
    using Run_rename [OF f] passes_rename [OF f] by simp
  from a b c show ?thesis by simp
qed

theorem token_round_trip_witness:
  "tokensChained []
     [ResourceForCall \<lparr>Group = [], Version = [], Resource = ''pods''\<rparr> (Inr podsGVR),
      ListCall podsGVR [] \<lparr>Limit = 10, Continue = [], LabelSelector = []\<rparr>
        (Inr (tablePage 5 ''t1'')),
      PrintObjCall (tablePage 5 ''t1'') None, prompt, ReadRuneCall (Inr 0x6E), Println_Stdout,
      ListCall podsGVR [] \<lparr>Limit = 10, Continue = ''t1'', LabelSelector = []\<rparr>
        (Inr (tablePage 2 [])),
      PrintObjCall (tablePage 2 []) None,
      Fprintln_Out ''\<newline>--- End of list ---''] \<and>
   Run (defaultOptions\<lparr>resource := ''pods'', interactive := True\<rparr>)
     (renameWorld (\<lambda>t. t @ t)
        (cluster (script [Inr (tablePage 5 ''t1'')] (Inr (tablePage 2 []))) (\<lambda>k. Inr 0x6E))) =
   Some (None,
     [ResourceForCall \<lparr>Group = [], Version = [], Resource = ''pods''\<rparr> (Inr podsGVR),
      ListCall podsGVR [] \<lparr>Limit = 10, Continue = [], LabelSelector = []\<rparr>
        (Inr (tablePage 5 ''t1t1'')),
      PrintObjCall (tablePage 5 ''t1t1'') None, prompt, ReadRuneCall (Inr 0x6E), Println_Stdout,
      ListCall podsGVR [] \<lparr>Limit = 10, Continue = ''t1t1'', LabelSelector = []\<rparr>
        (Inr (tablePage 2 [])),
      PrintObjCall (tablePage 2 []) None,
      Fprintln_Out ''\<newline>--- End of list ---''])"
proof -
  let ?o = "defaultOptions\<lparr>resource := ''pods'', interactive := True\<rparr>"
  let ?w = "cluster (script [Inr (tablePage 5 ''t1'')] (Inr (tablePage 2 []))) (\<lambda>k. Inr 0x6E) :: Table world"
  have run: "Run ?o ?w = Some (None,
     [ResourceForCall \<lparr>Group = [], Version = [], Resource = ''pods''\<rparr> (Inr podsGVR),
      ListCall podsGVR [] \<lparr>Limit = 10, Continue = [], LabelSelector = []\<rparr>
        (Inr (tablePage 5 ''t1'')),
      PrintObjCall (tablePage 5 ''t1'') None, prompt, ReadRuneCall (Inr 0x6E), Println_Stdout,
      ListCall podsGVR [] \<lparr>Limit = 10, Continue = ''t1'', LabelSelector = []\<rparr>
        (Inr (tablePage 2 [])),
      PrintObjCall (tablePage 2 []) None,
      Fprintln_Out ''\<newline>--- End of list ---''])"
    by code_simp
  have f: "\<forall>t::string. (t @ t = []) = (t = [])" by simp
  have c: "continueToken ?o = []" by (simp add: defaultOptions_def)
  show ?thesis
    using token_round_trip [of ?o ?w "\<lambda>t. t @ t"] run f c
    by (simp add: renameTable_def tablePage_def prompt_def defaultOptions_def)
qed

subsection \<open>The two versions of Run\<close>

lemma iteration_variants:
  assumes "sameCollaborators wa wb" and "ToPrinter wb (outputFormat opts) = None"
    and "abstractState pageOfList sb = abstractState pageOfTable sa"
  shows "fst (iteration_dynamic opts wb ns gvr sb) = fst (iteration opts wa ns gvr sa) \<and>
         abstractState pageOfList (snd (iteration_dynamic opts wb ns gvr sb)) =
           abstractState pageOfTable (snd (iteration opts wa ns gvr sa))"
proof -
  from assms(1) have resp: "map_sum (\<lambda>e. e) pageOfTable (listResponse wa (listed sa)) =
          map_sum (\<lambda>e. e) pageOfList (listResponse wb (listed sa))"
    and pr: "printResult wa = printResult wb" and rd: "readRune wa = readRune wb"
    by (simp_all add: sameCollaborators_def)
  from assms(3) have st: "continueTokenVar sb = continueTokenVar sa"
    "isFirstRequest sb = isFirstRequest sa" "listed sb = listed sa" "printed sb = printed sa"
    "keysRead sb = keysRead sa"
    "map (map_event pageOfList) (trace sb) = map (map_event pageOfTable) (trace sa)"
    by (simp_all add: abstractState_def)
  show ?thesis
  proof (cases "listResponse wa (listed sa)")
    case (Inl err)
    with resp have "listResponse wb (listed sa) = Inl err"
      by (cases "listResponse wb (listed sa)") simp_all
    with Inl st show ?thesis
      by (simp add: iteration_def iteration_dynamic_def Let_def abstractState_def)
  next
    case (Inr table)
    with resp obtain list where l: "listResponse wb (listed sa) = Inr list"
      and p: "pageOfList list = pageOfTable table"
      by (cases "listResponse wb (listed sa)") simp_all
    from p have eq: "length (Items list) = length (Rows table)" "listContinue list = tableContinue table"
      by (simp_all add: pageOfList_def pageOfTable_def)
    from Inr l st eq assms(2) pr rd p show ?thesis
      by (auto simp: iteration_def iteration_dynamic_def Let_def abstractState_def
            split: option.splits sum.splits)
  qed
qed

lemma loop_variants_forward:
  assumes "sameCollaborators wa wb" and "ToPrinter wb (outputFormat opts) = None"
    and "loop opts wa ns gvr sa = Some y"
    and "abstractState pageOfList sb = abstractState pageOfTable sa"
  shows "\<exists>z. loop_dynamic opts wb ns gvr sb = Some z \<and> fst z = fst y \<and>
           abstractState pageOfList (snd z) = abstractState pageOfTable (snd y)"
  using assms(3,4)
proof (induction arbitrary: sb rule: loop_induct)
  case (Return s r s')
  from iteration_variants [OF assms(1,2) Return(2), of ns gvr] Return(1)
  have "iteration_dynamic opts wb ns gvr sb = (Return r, snd (iteration_dynamic opts wb ns gvr sb))"
    and "abstractState pageOfList (snd (iteration_dynamic opts wb ns gvr sb)) =
           abstractState pageOfTable s'"
    by (cases "iteration_dynamic opts wb ns gvr sb"; simp)+
  then show ?case by (auto dest: loop_dynamic_Return)
next
  case (Next s s' y)
  from iteration_variants [OF assms(1,2) Next(4), of ns gvr] Next(1)
  have it: "iteration_dynamic opts wb ns gvr sb = (Next, snd (iteration_dynamic opts wb ns gvr sb))"
    and st: "abstractState pageOfList (snd (iteration_dynamic opts wb ns gvr sb)) =
           abstractState pageOfTable s'"
    by (cases "iteration_dynamic opts wb ns gvr sb"; simp)+
  from Next(3) [OF st] loop_dynamic_Next [OF it] show ?case by simp
qed

lemma loop_variants_backward:
  assumes "sameCollaborators wa wb" and "ToPrinter wb (outputFormat opts) = None"
    and "loop_dynamic opts wb ns gvr sb = Some z"
    and "abstractState pageOfList sb = abstractState pageOfTable sa"
  shows "\<exists>y. loop opts wa ns gvr sa = Some y"
  using assms(3,4)
proof (induction arbitrary: sa rule: loop_dynamic_induct)
  case (Return s r s')
  from iteration_variants [OF assms(1,2) Return(2), of ns gvr] Return(1)
  have "iteration opts wa ns gvr sa = (Return r, snd (iteration opts wa ns gvr sa))"
    by (cases "iteration opts wa ns gvr sa") simp
  then show ?case by (auto dest: loop_Return)
next
  case (Next s s' z)
  from iteration_variants [OF assms(1,2) Next(4), of ns gvr] Next(1)
  have it: "iteration opts wa ns gvr sa = (Next, snd (iteration opts wa ns gvr sa))"
    and st: "abstractState pageOfList s' =
           abstractState pageOfTable (snd (iteration opts wa ns gvr sa))"
    by (cases "iteration opts wa ns gvr sa"; simp)+
  from Next(3) [OF st] loop_Next [OF it] show ?case by simp
qed

lemma loop_variants:
  assumes "sameCollaborators wa wb" and "ToPrinter wb (outputFormat opts) = None"
    and "abstractState pageOfList sb = abstractState pageOfTable sa"
  shows "map_option (\<lambda>(r, s). (r, map (map_event pageOfList) (trace s)))
           (loop_dynamic opts wb ns gvr sb) =
         map_option (\<lambda>(r, s). (r, map (map_event pageOfTable) (trace s)))
           (loop opts wa ns gvr sa)"
proof (cases "loop opts wa ns gvr sa")
  case None
  with loop_variants_backward [OF assms(1,2) _ assms(3), of ns gvr] show ?thesis
    by (cases "loop_dynamic opts wb ns gvr sb") auto
next
  case (Some y)
  from loop_variants_forward [OF assms(1,2) Some assms(3)] obtain z
    where "loop_dynamic opts wb ns gvr sb = Some z" "fst z = fst y"
      "abstractState pageOfList (snd z) = abstractState pageOfTable (snd y)" by blast
  with Some show ?thesis by (simp add: case_prod_beta abstractState_def)
qed

lemma gvrToFind_variants:
  assumes "sameCollaborators wa wb"
  shows "gvrToFind wb opts = gvrToFind wa opts"
  using assms by (simp add: sameCollaborators_def gvrToFind_def ToLower_def)

lemma getResourceGVR_variants:
  assumes "sameCollaborators wa wb"
  shows "getResourceGVR wb opts = getResourceGVR wa opts"
proof -
  from assms have "ResourceFor wb = ResourceFor wa" "Quote wb (resource opts) = Quote wa (resource opts)"
    by (simp_all add: sameCollaborators_def Quote_def)
  then show ?thesis
    by (simp add: getResourceGVR_def gvrToFind_variants [OF assms] split: sum.splits)
qed

text \<open>
  With the same options, the same page (one item, a token) and the same keystrokes, the
  Table version prints the page and the token line and succeeds, while the dynamic
  version, whose print flags yield no printer, returns that error right after the fetch.
\<close>

theorem Run_variants_counterexample:
  "Run (defaultOptions\<lparr>resource := ''pods''\<rparr>)
     (cluster (\<lambda>k. Inr \<lparr>tableContinue = ''t1'', Rows = [[''pod-a'']]\<rparr>) (\<lambda>k. Inl EOF)) =
     Some (None,
       [ResourceForCall \<lparr>Group = [], Version = [], Resource = ''pods''\<rparr> (Inr podsGVR),
        ListCall podsGVR [] \<lparr>Limit = 10, Continue = [], LabelSelector = []\<rparr>
          (Inr \<lparr>tableContinue = ''t1'', Rows = [[''pod-a'']]\<rparr>),
        PrintObjCall \<lparr>tableContinue = ''t1'', Rows = [[''pod-a'']]\<rparr> None,
        Fprintf_Out ''\<newline>Continue Token: %s\<newline>'' [''t1'']]) \<and>
   Run_dynamic (defaultOptions\<lparr>resource := ''pods''\<rparr>)
     ((cluster (\<lambda>k. Inr \<lparr>listContinue = ''t1'', Items = [''pod-a'']\<rparr>) (\<lambda>k. Inl EOF))
        \<lparr>ToPrinter := \<lambda>f. Some (LibraryError ''unable to match a printer'')\<rparr>) =
     Some (Some (LibraryError ''unable to match a printer''),
       [ResourceForCall \<lparr>Group = [], Version = [], Resource = ''pods''\<rparr> (Inr podsGVR),
        ListCall podsGVR [] \<lparr>Limit = 10, Continue = [], LabelSelector = []\<rparr>
          (Inr \<lparr>listContinue = ''t1'', Items = [''pod-a'']\<rparr>)])"
  by code_simp

text \<open>
  C10, amended. When the collaborators are the same, the REST client of the Table version
  can be built and the print flags of the dynamic version yield a printer, the two
  versions of \<^verbatim>\<open>Run\<close> make the same requests, print the same pages, write the same
  messages, prompts and token lines, read the same keystrokes and return the same result,
  or both do not return.
\<close>

theorem Run_variants_agree:
  assumes "sameCollaborators wa wb"
    and "\<forall>gv. newRestClient wa gv = None"
    and "ToPrinter wb (outputFormat opts) = None"
  shows "map_option (\<lambda>(r, tr). (r, map (map_event pageOfList) tr)) (Run_dynamic opts wb) =
         map_option (\<lambda>(r, tr). (r, map (map_event pageOfTable) tr)) (Run opts wa)"
proof (cases "getResourceGVR wa opts")
  case (Inl err)
  with getResourceGVR_variants [OF assms(1), of opts] gvrToFind_variants [OF assms(1), of opts]
    assms(1) show ?thesis
    by (simp add: Run_def Run_dynamic_def sameCollaborators_def)
next
  case (Inr gvr)
  let ?ns = "if allNamespaces opts then [] else namespace opts"
  let ?tra = "[ResourceForCall (gvrToFind wa opts) (ResourceFor wa (gvrToFind wa opts))]
                :: Table event list"
  let ?trb = "[ResourceForCall (gvrToFind wa opts) (ResourceFor wa (gvrToFind wa opts))]
                :: UnstructuredList event list"
  let ?la = "loop opts wa ?ns gvr (initialState opts ?tra)"
  let ?lb = "loop_dynamic opts wb ?ns gvr (initialState opts ?trb)"
  have st: "abstractState pageOfList (initialState opts ?trb) =
            abstractState pageOfTable (initialState opts ?tra)"
    by (simp add: abstractState_def initialState_def)
  from assms(1) have rf: "ResourceFor wb = ResourceFor wa" by (simp add: sameCollaborators_def)
  have b: "Run_dynamic opts wb = map_option (\<lambda>(r, s). (r, trace s)) ?lb"
    using Inr getResourceGVR_variants [OF assms(1), of opts]
      gvrToFind_variants [OF assms(1), of opts] rf
    by (simp add: Run_dynamic_def initialState_def)
  have a: "Run opts wa = map_option (\<lambda>(r, s). (r, trace s)) ?la"
    using Inr assms(2) by (simp add: Run_def initialState_def)
  have "map_option (\<lambda>(r, tr). (r, map (map_event pageOfList) tr)) (Run_dynamic opts wb) =
        map_option (\<lambda>(r, s). (r, map (map_event pageOfList) (trace s))) ?lb"
    unfolding b by (cases ?lb) auto
  also have "\<dots> = map_option (\<lambda>(r, s). (r, map (map_event pageOfTable) (trace s))) ?la"
    by (rule loop_variants [OF assms(1,3) st])
  also have "\<dots> = map_option (\<lambda>(r, tr). (r, map (map_event pageOfTable) tr)) (Run opts wa)"
    unfolding a by (cases ?la) auto
  finally show ?thesis .
qed

theorem Run_variants_witness:
  "map_option (\<lambda>(r, tr). (r, map (map_event pageOfList) tr))
     (Run_dynamic (defaultOptions\<lparr>resource := ''pods'', interactive := True\<rparr>)
        (cluster (script [Inr (listPage 5 ''t1'')] (Inr (listPage 2 []))) (\<lambda>k. Inr 0x6E))) =
   Some (None,
     [ResourceForCall \<lparr>Group = [], Version = [], Resource = ''pods''\<rparr> (Inr podsGVR),
      ListCall podsGVR [] \<lparr>Limit = 10, Continue = [], LabelSelector = []\<rparr> (Inr (5, ''t1'')),
      PrintObjCall (5, ''t1'') None, prompt, ReadRuneCall (Inr 0x6E), Println_Stdout,
      ListCall podsGVR [] \<lparr>Limit = 10, Continue = ''t1'', LabelSelector = []\<rparr> (Inr (2, [])),
      PrintObjCall (2, []) None,
      Fprintln_Out ''\<newline>--- End of list ---''])"
proof -
  let ?o = "defaultOptions\<lparr>resource := ''pods'', interactive := True\<rparr>"
  let ?wa = "cluster (script [Inr (tablePage 5 ''t1'')] (Inr (tablePage 2 []))) (\<lambda>k. Inr 0x6E)
               :: Table world"
  let ?wb = "cluster (script [Inr (listPage 5 ''t1'')] (Inr (listPage 2 []))) (\<lambda>k. Inr 0x6E)
               :: UnstructuredList world"
  have 1: "sameCollaborators ?wa ?wb"
    by (simp add: sameCollaborators_def cluster_def script_def pageOfTable_def pageOfList_def
          tablePage_def listPage_def)
  have 2: "\<forall>gv. newRestClient ?wa gv = None" by (simp add: newRestClient_def cluster_def)
  have 3: "ToPrinter ?wb (outputFormat ?o) = None" by (simp add: cluster_def)
  have run: "map_option (\<lambda>(r, tr). (r, map (map_event pageOfTable) tr)) (Run ?o ?wa) =
   Some (None,
     [ResourceForCall \<lparr>Group = [], Version = [], Resource = ''pods''\<rparr> (Inr podsGVR),
      ListCall podsGVR [] \<lparr>Limit = 10, Continue = [], LabelSelector = []\<rparr> (Inr (5, ''t1'')),
      PrintObjCall (5, ''t1'') None, prompt, ReadRuneCall (Inr 0x6E), Println_Stdout,
      ListCall podsGVR [] \<lparr>Limit = 10, Continue = ''t1'', LabelSelector = []\<rparr> (Inr (2, [])),
      PrintObjCall (2, []) None,
      Fprintln_Out ''\<newline>--- End of list ---''])"
    by code_simp
  show ?thesis
    using Run_variants_agree [OF 1 2 3] run by simp
qed

end
